theory Spec2Isabelle
  imports Main "HOL-Library.AList" "HOL-Library.Char_ord" "HOL-Library.Monad_Syntax"
begin

section \<open>Profile data model (aws\_profile.c)\<close>

text \<open>
  The structs of the profile module become records. An \<open>aws_string\<close> is an immutable
  byte string and is copied whenever it is stored, so it is modelled by its value. The
  fields \<open>name\<close> and \<open>value\<close> occur in several structs of the source; the record fields
  carry the struct's name in front to keep them apart.

  Every \<open>aws_hash_table\<close> of the module is keyed by strings and holds each key at most once.
  It is modelled as an association list: \<open>aws_hash_table_find\<close> is \<open>map_of\<close>,
  \<open>aws_hash_table_put\<close> replaces the entry of the key or adds one, \<open>aws_hash_table_remove\<close>
  deletes it, and an iteration visits the entries in list order. The order in which the
  source iterates a table is not specified; the theorems below hold for every list, hence
  for every order.

  Memory allocation is taken to succeed: the branches of the source that only handle a
  failed allocation or a failed table insertion are not part of the model. With that,
  \<open>property->value\<close> is never \<open>NULL\<close> (every constructor stores a string there), and
  the test \<open>if (source->value)\<close> of the property merge always holds. Log output is not
  modelled.
\<close>

record aws_profile_property =
  property_name :: string
  property_value :: string
  is_empty_valued :: bool
  sub_properties :: "(string \<times> string) list"

record aws_profile =
  profile_name :: string
  has_profile_prefix :: bool
  properties :: "(string \<times> aws_profile_property) list"

datatype aws_profile_source_type = AWS_PST_NONE | AWS_PST_CONFIG | AWS_PST_CREDENTIALS

record aws_profile_collection =
  profile_source :: aws_profile_source_type
  profiles :: "(string \<times> aws_profile) list"

definition aws_hash_table_find :: "(string \<times> 'v) list \<Rightarrow> string \<Rightarrow> 'v option" where
  "aws_hash_table_find table key = map_of table key"

definition aws_hash_table_put :: "(string \<times> 'v) list \<Rightarrow> string \<Rightarrow> 'v \<Rightarrow> (string \<times> 'v) list" where
  "aws_hash_table_put table key v = AList.update key v table"

definition aws_hash_table_remove :: "(string \<times> 'v) list \<Rightarrow> string \<Rightarrow> (string \<times> 'v) list" where
  "aws_hash_table_remove table key = AList.delete key table"

definition aws_hash_table_get_entry_count :: "(string \<times> 'v) list \<Rightarrow> nat" where
  "aws_hash_table_get_entry_count table = length table"

definition aws_profile_property_new :: "string \<Rightarrow> string \<Rightarrow> aws_profile_property" where
  "aws_profile_property_new name val =
     \<lparr>property_name = name, property_value = val,
      is_empty_valued = (length val = 0), sub_properties = []\<rparr>"

definition aws_profile_new :: "string \<Rightarrow> bool \<Rightarrow> aws_profile" where
  "aws_profile_new name has_prefix =
     \<lparr>profile_name = name, has_profile_prefix = has_prefix, properties = []\<rparr>"

definition aws_profile_get_property :: "aws_profile \<Rightarrow> string \<Rightarrow> aws_profile_property option" where
  "aws_profile_get_property profile name = aws_hash_table_find (properties profile) name"

definition aws_profile_collection_get_profile ::
    "aws_profile_collection \<Rightarrow> string \<Rightarrow> aws_profile option" where
  "aws_profile_collection_get_profile collection name =
     aws_hash_table_find (profiles collection) name"

section \<open>Merging\<close>

text \<open>
  Each merge function of the source writes through its \<open>dest\<close> pointer and only reads its
  \<open>source\<close>; the model takes the destination object and returns the updated one. The
  body of each \<open>while\<close> loop over a hash iterator is a function of its own, folded over the
  entries of the source table.
\<close>

definition s_profile_property_merge_iter ::
    "string \<times> string \<Rightarrow> aws_profile_property \<Rightarrow> aws_profile_property" where
  "s_profile_property_merge_iter entry dest =
     (let dest_key = fst entry;
          dest_sub_property = snd entry;
          removed = aws_hash_table_remove (sub_properties dest) dest_key
      in dest\<lparr>sub_properties := aws_hash_table_put removed dest_key dest_sub_property\<rparr>)"

definition s_profile_property_merge ::
    "aws_profile_property \<Rightarrow> aws_profile_property \<Rightarrow> aws_profile_property" where
  "s_profile_property_merge dest source =
     (let dest1 = dest\<lparr>property_value := property_value source\<rparr>;
          dest2 = dest1\<lparr>is_empty_valued := is_empty_valued source\<rparr>
      in fold s_profile_property_merge_iter (sub_properties source) dest2)"

definition s_profile_merge_iter ::
    "string \<times> aws_profile_property \<Rightarrow> aws_profile \<Rightarrow> aws_profile" where
  "s_profile_merge_iter entry dest_profile =
     (let source_key = fst entry;
          source_property = snd entry
      in case aws_profile_get_property dest_profile source_key of
           None \<Rightarrow>
             (let dest_property = aws_profile_property_new source_key []
              in dest_profile\<lparr>properties :=
                   aws_hash_table_put (properties dest_profile) source_key
                     (s_profile_property_merge dest_property source_property)\<rparr>)
         | Some dest_property \<Rightarrow>
             dest_profile\<lparr>properties :=
               aws_hash_table_put (properties dest_profile) source_key
                 (s_profile_property_merge dest_property source_property)\<rparr>)"

definition s_profile_merge :: "aws_profile \<Rightarrow> aws_profile \<Rightarrow> aws_profile" where
  "s_profile_merge dest_profile source_profile =
     fold s_profile_merge_iter (properties source_profile)
       (dest_profile\<lparr>has_profile_prefix := has_profile_prefix source_profile\<rparr>)"

definition s_profile_collection_merge_iter ::
    "string \<times> aws_profile \<Rightarrow> aws_profile_collection \<Rightarrow> aws_profile_collection" where
  "s_profile_collection_merge_iter entry dest_collection =
     (let source_key = fst entry;
          source_profile = snd entry
      in case aws_profile_collection_get_profile dest_collection source_key of
           None \<Rightarrow>
             (let dest_profile = aws_profile_new source_key (has_profile_prefix source_profile)
              in dest_collection\<lparr>profiles :=
                   aws_hash_table_put (profiles dest_collection) source_key
                     (s_profile_merge dest_profile source_profile)\<rparr>)
         | Some dest_profile \<Rightarrow>
             dest_collection\<lparr>profiles :=
               aws_hash_table_put (profiles dest_collection) source_key
                 (s_profile_merge dest_profile source_profile)\<rparr>)"

definition s_profile_collection_merge ::
    "aws_profile_collection \<Rightarrow> aws_profile_collection \<Rightarrow> aws_profile_collection" where
  "s_profile_collection_merge dest_collection source_collection =
     fold s_profile_collection_merge_iter (profiles source_collection) dest_collection"

definition aws_profile_collection_new_from_merge ::
    "aws_profile_collection option \<Rightarrow> aws_profile_collection option \<Rightarrow> aws_profile_collection" where
  "aws_profile_collection_new_from_merge config_profiles credentials_profiles =
     (let merged = \<lparr>profile_source = AWS_PST_NONE, profiles = []\<rparr>;
          merged1 = (case config_profiles of
                       None \<Rightarrow> merged
                     | Some config \<Rightarrow> s_profile_collection_merge merged config);
          merged2 = (case credentials_profiles of
                       None \<Rightarrow> merged1
                     | Some credentials \<Rightarrow> s_profile_collection_merge merged1 credentials)
      in merged2)"

section \<open>Byte cursors\<close>

text \<open>
  An \<open>aws_byte_cursor\<close> is a pointer and a length into the buffer being parsed. The
  profile parser only ever moves a cursor forwards and shortens it, so a cursor is modelled
  by the bytes it still covers.
\<close>

text \<open>Modelled from the spec: \<open>aws_byte_cursor_right_trim_pred\<close> belongs to the byte-cursor
  collaborator (aws-c-common), which is not part of the sources; it drops the bytes at the
  right end that satisfy the predicate.\<close>

definition aws_byte_cursor_right_trim_pred :: "string \<Rightarrow> (char \<Rightarrow> bool) \<Rightarrow> string" where
  "aws_byte_cursor_right_trim_pred cursor predicate = rev (dropWhile predicate (rev cursor))"

text \<open>Modelled from the spec: \<open>aws_byte_cursor_left_trim_pred\<close> of the same collaborator drops
  the bytes at the left end that satisfy the predicate.\<close>

definition aws_byte_cursor_left_trim_pred :: "string \<Rightarrow> (char \<Rightarrow> bool) \<Rightarrow> string" where
  "aws_byte_cursor_left_trim_pred cursor predicate = dropWhile predicate cursor"

text \<open>Modelled from the spec: \<open>aws_byte_cursor_trim_pred\<close> of the same collaborator trims on
  both ends.\<close>

definition aws_byte_cursor_trim_pred :: "string \<Rightarrow> (char \<Rightarrow> bool) \<Rightarrow> string" where
  "aws_byte_cursor_trim_pred cursor predicate =
     aws_byte_cursor_right_trim_pred (aws_byte_cursor_left_trim_pred cursor predicate) predicate"

text \<open>Modelled from the spec: \<open>aws_byte_cursor_advance\<close> of the same collaborator moves the
  cursor forward by \<open>len\<close> bytes; a request beyond the bytes the cursor covers, or beyond
  half the range of \<open>size_t\<close>, leaves the cursor as it is.\<close>

definition SIZE_MAX :: nat where
  "SIZE_MAX = 2 ^ 64 - 1"

definition aws_byte_cursor_advance :: "string \<Rightarrow> nat \<Rightarrow> string" where
  "aws_byte_cursor_advance cursor len =
     (if length cursor > SIZE_MAX div 2 \<or> len > SIZE_MAX div 2 \<or> len > length cursor
      then cursor
      else drop len cursor)"

text \<open>Modelled from the spec: splitting on a byte (\<open>aws_byte_cursor_next_split\<close>,
  \<open>aws_byte_cursor_split_on_char\<close>) belongs to the same collaborator; the pieces are the
  maximal runs between occurrences of the byte, in order.\<close>

fun split_on_char :: "char \<Rightarrow> string \<Rightarrow> string list" where
  "split_on_char c [] = [[]]"
| "split_on_char c (x # xs) =
     (let r = split_on_char c xs
      in if x = c then [] # r else (x # hd r) # tl r)"

section \<open>Profile parsing (aws\_profile.c)\<close>

subsection \<open>Character classes\<close>

definition s_is_assignment_operator :: "char \<Rightarrow> bool" where
  "s_is_assignment_operator v = (v = CHR ''='')"

definition s_is_not_assignment_operator :: "char \<Rightarrow> bool" where
  "s_is_not_assignment_operator v = (\<not> s_is_assignment_operator v)"

definition s_is_identifier :: "char \<Rightarrow> bool" where
  "s_is_identifier v =
     ((CHR ''A'' \<le> v \<and> v \<le> CHR ''Z'') \<or> (CHR ''a'' \<le> v \<and> v \<le> CHR ''z'') \<or>
      (CHR ''0'' \<le> v \<and> v \<le> CHR ''9'') \<or> v = CHR 0x5C \<or> v = CHR ''_'' \<or> v = CHR ''-'')"

definition s_is_whitespace :: "char \<Rightarrow> bool" where
  "s_is_whitespace v = (v = CHR 0x09 \<or> v = CHR 0x0A \<or> v = CHR 0x0D \<or> v = CHR '' '')"

definition s_is_comment_token :: "char \<Rightarrow> bool" where
  "s_is_comment_token v = (v = CHR ''#'' \<or> v = CHR '';'')"

definition s_is_not_comment_token :: "char \<Rightarrow> bool" where
  "s_is_not_comment_token v = (\<not> s_is_comment_token v)"

definition s_is_profile_start :: "char \<Rightarrow> bool" where
  "s_is_profile_start v = (v = CHR ''['')"

definition s_is_not_profile_end :: "char \<Rightarrow> bool" where
  "s_is_not_profile_end v = (v \<noteq> CHR '']'')"

definition s_is_carriage_return :: "char \<Rightarrow> bool" where
  "s_is_carriage_return v = (v = CHR 0x0D)"

text \<open>
  \<open>s_is_comment_line\<close> reads the first byte of the line; its only caller has checked
  before that the line is not empty.
\<close>

definition s_is_comment_line :: "string \<Rightarrow> bool" where
  "s_is_comment_line line_cursor =
     (case line_cursor of [] \<Rightarrow> False
      | first_char # _ \<Rightarrow> first_char = CHR ''#'' \<or> first_char = CHR '';'')"

definition s_is_whitespace_line :: "string \<Rightarrow> bool" where
  "s_is_whitespace_line line_cursor =
     (length (aws_byte_cursor_left_trim_pred line_cursor s_is_whitespace) = 0)"

definition s_default_profile_name :: string where
  "s_default_profile_name = ''default''"

definition s_is_default_profile_name :: "string \<Rightarrow> bool" where
  "s_is_default_profile_name name = (s_default_profile_name = name)"

subsection \<open>Consume helpers\<close>

text \<open>
  \<open>s_parse_by_character_predicate\<close> returns whether anything was consumed, the consumed
  range (\<open>parsed\<close>) and the advanced cursor. The source bounds the scan by
  \<open>maximum_allowed\<close> only when \<open>maximum_allowed < result.len\<close>, and \<open>result.len\<close> is
  zero at that point; the model keeps the test as it is written.
\<close>

definition s_parse_by_character_predicate ::
    "string \<Rightarrow> (char \<Rightarrow> bool) \<Rightarrow> nat \<Rightarrow> bool \<times> string \<times> string" where
  "s_parse_by_character_predicate start predicate maximum_allowed =
     (let result_len = (0::nat);
          end_offset = (if maximum_allowed > 0 \<and> maximum_allowed < result_len
                        then maximum_allowed else length start);
          consumed = length (takeWhile predicate (take end_offset start))
      in (consumed > 0, take consumed start, drop consumed start))"

text \<open>
  \<open>s_parse_by_token\<close> compares with \<open>strncmp\<close> over the length of the token; the only
  token of the module, \<open>profile\<close>, holds no NUL byte, so the comparison is equality of
  the first bytes of the cursor with the token.
\<close>

definition s_parse_by_token :: "string \<Rightarrow> string \<Rightarrow> bool \<times> string \<times> string" where
  "s_parse_by_token start token =
     (let matched = (length token \<le> length start \<and> take (length token) start = token)
      in (matched,
          take (if matched then length token else 0) start,
          if matched then drop (length token) start else start))"

subsection \<open>Parse context\<close>

text \<open>
  The context points at the current profile and the current property, both owned by the
  collection being built. A profile is reached from the collection by its table key and a
  property from its profile by its table key; the pointers are modelled by these keys,
  \<open>None\<close> for \<open>NULL\<close>. The source resets both pointers before it removes or replaces
  the object they point at. The fields that only feed the log (file path, line text and
  line number) are left out.
\<close>

datatype profile_parse_error =
  PARSE_NO_ERROR
| AWS_AUTH_PROFILE_PARSE_RECOVERABLE_ERROR
| AWS_AUTH_PROFILE_PARSE_FATAL_ERROR

record profile_file_parse_context =
  profile_collection :: aws_profile_collection
  current_profile :: "string option"
  current_property :: "string option"
  parse_error :: profile_parse_error
  has_seen_profile :: bool

definition context_current_profile :: "profile_file_parse_context \<Rightarrow> aws_profile option" where
  "context_current_profile context =
     (case current_profile context of
        None \<Rightarrow> None
      | Some profile_key \<Rightarrow> aws_hash_table_find (profiles (profile_collection context)) profile_key)"

definition context_current_property ::
    "profile_file_parse_context \<Rightarrow> aws_profile_property option" where
  "context_current_property context =
     (case context_current_profile context of
        None \<Rightarrow> None
      | Some profile \<Rightarrow>
          (case current_property context of
             None \<Rightarrow> None
           | Some property_key \<Rightarrow> aws_hash_table_find (properties profile) property_key))"

text \<open>A write through \<open>context->current_profile\<close>: the profile object in the table changes.\<close>

definition context_update_profile ::
    "(aws_profile \<Rightarrow> aws_profile) \<Rightarrow> profile_file_parse_context \<Rightarrow> profile_file_parse_context" where
  "context_update_profile f context =
     (case current_profile context of
        None \<Rightarrow> context
      | Some profile_key \<Rightarrow>
          context\<lparr>profile_collection :=
            (profile_collection context)\<lparr>profiles :=
               AList.map_entry profile_key f (profiles (profile_collection context))\<rparr>\<rparr>)"

text \<open>A write through \<open>context->current_property\<close>.\<close>

definition context_update_property ::
    "(aws_profile_property \<Rightarrow> aws_profile_property) \<Rightarrow>
     profile_file_parse_context \<Rightarrow> profile_file_parse_context" where
  "context_update_property f context =
     (case current_property context of
        None \<Rightarrow> context
      | Some property_key \<Rightarrow>
          context_update_profile
            (\<lambda>profile. profile\<lparr>properties := AList.map_entry property_key f (properties profile)\<rparr>)
            context)"

subsection \<open>Properties and profiles under construction\<close>

definition s_profile_property_add_continuation ::
    "aws_profile_property \<Rightarrow> string \<Rightarrow> aws_profile_property" where
  "s_profile_property_add_continuation property continuation_value =
     property\<lparr>property_value := property_value property @ [CHR 0x0A] @ continuation_value\<rparr>"

definition s_profile_property_add_sub_property ::
    "aws_profile_property \<Rightarrow> string \<Rightarrow> string \<Rightarrow> aws_profile_property" where
  "s_profile_property_add_sub_property property key val =
     property\<lparr>sub_properties :=
       aws_hash_table_put (aws_hash_table_remove (sub_properties property) key) key val\<rparr>"

definition s_profile_add_property :: "aws_profile \<Rightarrow> string \<Rightarrow> string \<Rightarrow> aws_profile" where
  "s_profile_add_property profile key_cursor value_cursor =
     profile\<lparr>properties :=
       aws_hash_table_put (properties profile) key_cursor
         (aws_profile_property_new key_cursor value_cursor)\<rparr>"

text \<open>
  \<open>s_profile_collection_add_profile\<close> returns the collection and \<open>*current_profile_out\<close>.
\<close>

definition s_profile_collection_add_profile ::
    "aws_profile_collection \<Rightarrow> string \<Rightarrow> bool \<Rightarrow> aws_profile_collection \<times> string option" where
  "s_profile_collection_add_profile collection name has_prefix =
     (let existing_profile = aws_hash_table_find (profiles collection) name;
          is_config_default =
            (profile_source collection = AWS_PST_CONFIG \<and> s_is_default_profile_name name)
      in if is_config_default \<and> \<not> has_prefix \<and>
            (case existing_profile of None \<Rightarrow> False | Some e \<Rightarrow> has_profile_prefix e)
         then (collection, None)
         else
           (let stomp = (is_config_default \<and> has_prefix \<and>
                   (case existing_profile of None \<Rightarrow> False | Some e \<Rightarrow> \<not> has_profile_prefix e));
                collection1 = (if stomp
                   then collection\<lparr>profiles := aws_hash_table_remove (profiles collection) name\<rparr>
                   else collection);
                existing_profile1 = (if stomp then None else existing_profile)
            in case existing_profile1 of
                 Some e \<Rightarrow> (collection1, Some name)
               | None \<Rightarrow>
                   (collection1\<lparr>profiles :=
                      aws_hash_table_put (profiles collection1) name (aws_profile_new name has_prefix)\<rparr>,
                    Some name)))"

subsection \<open>Trailing comments\<close>

definition s_trim_trailing_comment :: "string \<Rightarrow> string" where
  "s_trim_trailing_comment line =
     fst (snd (s_parse_by_character_predicate line s_is_not_comment_token 0))"

text \<open>
  The loop of \<open>s_trim_trailing_whitespace_comment\<close> stops at the first whitespace byte
  whose successor, still inside the line, is a comment token.
\<close>

fun s_trim_trailing_whitespace_comment :: "string \<Rightarrow> string" where
  "s_trim_trailing_whitespace_comment [] = []"
| "s_trim_trailing_whitespace_comment (c # rest) =
     (if s_is_whitespace c \<and> (case rest of [] \<Rightarrow> False | next_char # _ \<Rightarrow> s_is_comment_token next_char)
      then []
      else c # s_trim_trailing_whitespace_comment rest)"

definition s_profile_token :: string where
  "s_profile_token = ''profile''"

subsection \<open>Line classifiers\<close>

text \<open>
  Each classifier returns its \<open>bool\<close> (the line was of this kind) and the context.
\<close>

definition s_parse_profile_declaration ::
    "string \<Rightarrow> profile_file_parse_context \<Rightarrow> bool \<times> profile_file_parse_context" where
  "s_parse_profile_declaration line_cursor context =
     (let profile_line_cursor = s_trim_trailing_comment line_cursor;
          profile_cursor = aws_byte_cursor_right_trim_pred profile_line_cursor s_is_whitespace
      in case s_parse_by_character_predicate profile_cursor s_is_profile_start 1 of
           (is_start, _, cursor1) \<Rightarrow>
      if \<not> is_start then (False, context)
      else
        (let context1 = context\<lparr>has_seen_profile := True, current_profile := None,
                                 current_property := None\<rparr>;
             backtrack_cursor = snd (snd (s_parse_by_character_predicate cursor1 s_is_whitespace 0));
             token_result = s_parse_by_token backtrack_cursor s_profile_token;
             space_result = s_parse_by_character_predicate (snd (snd token_result)) s_is_whitespace 1;
             has_prefix = (fst token_result \<and> fst space_result)
         in if has_prefix \<and> profile_source (profile_collection context1) = AWS_PST_CREDENTIALS
            then (True, context1\<lparr>parse_error := AWS_AUTH_PROFILE_PARSE_RECOVERABLE_ERROR\<rparr>)
            else
              (let cursor2 = (if has_prefix
                     then snd (snd (s_parse_by_character_predicate (snd (snd space_result))
                                      s_is_whitespace 0))
                     else backtrack_cursor)
               in case s_parse_by_character_predicate cursor2 s_is_identifier 0 of
                    (has_name, name, cursor3) \<Rightarrow>
               if \<not> has_name
               then (True, context1\<lparr>parse_error := AWS_AUTH_PROFILE_PARSE_RECOVERABLE_ERROR\<rparr>)
               else if profile_source (profile_collection context1) = AWS_PST_CONFIG \<and>
                       \<not> has_prefix \<and> \<not> s_is_default_profile_name name
               then (True, context1\<lparr>parse_error := AWS_AUTH_PROFILE_PARSE_RECOVERABLE_ERROR\<rparr>)
               else
                 (let cursor4 = snd (snd (s_parse_by_character_predicate cursor3 s_is_whitespace 0))
                  in case s_parse_by_character_predicate cursor4 s_is_not_profile_end 0 of
                       (_, invalid_chars, cursor5) \<Rightarrow>
                  if length cursor5 = 0
                  then (True, context1\<lparr>parse_error := AWS_AUTH_PROFILE_PARSE_FATAL_ERROR\<rparr>)
                  else if length invalid_chars > 0
                  then (True, context1\<lparr>parse_error := AWS_AUTH_PROFILE_PARSE_RECOVERABLE_ERROR\<rparr>)
                  else
                    (case s_profile_collection_add_profile (profile_collection context1)
                            name has_prefix of
                       (collection, current) \<Rightarrow>
                         (True, context1\<lparr>profile_collection := collection,
                                         current_profile := current\<rparr>))))))"

text \<open>
  In \<open>s_parse_property_continuation\<close> the continuation is appended to the value of the
  current property first; only then, for an empty-valued property, is the line read as a
  sub-property. The branch for a pointer without an object behind it has no counterpart
  in the source.
\<close>

definition s_parse_property_continuation ::
    "string \<Rightarrow> profile_file_parse_context \<Rightarrow> bool \<times> profile_file_parse_context" where
  "s_parse_property_continuation line_cursor context =
     (let continuation_cursor = aws_byte_cursor_right_trim_pred line_cursor s_is_whitespace
      in case s_parse_by_character_predicate continuation_cursor s_is_whitespace 0 of
           (has_indent, _, cursor1) \<Rightarrow>
      if \<not> has_indent then (False, context)
      else if length cursor1 = 0
      then (True, context\<lparr>parse_error := AWS_AUTH_PROFILE_PARSE_RECOVERABLE_ERROR\<rparr>)
      else if current_profile context = None \<or> current_property context = None
      then (True, context\<lparr>parse_error := AWS_AUTH_PROFILE_PARSE_FATAL_ERROR\<rparr>)
      else
        (case context_current_property context of
           None \<Rightarrow> (True, context)
         | Some property \<Rightarrow>
        (let context1 = context_update_property
                          (\<lambda>p. s_profile_property_add_continuation p cursor1) context
         in if \<not> is_empty_valued property then (True, context1)
            else
              (case s_parse_by_character_predicate cursor1 s_is_not_assignment_operator 0 of
                 (has_key, key_cursor, cursor2) \<Rightarrow>
               if \<not> has_key
               then (True, context1\<lparr>parse_error := AWS_AUTH_PROFILE_PARSE_FATAL_ERROR\<rparr>)
               else
                 (case s_parse_by_character_predicate cursor2 s_is_assignment_operator 1 of
                    (has_assignment, _, cursor3) \<Rightarrow>
                  if \<not> has_assignment
                  then (True, context1\<lparr>parse_error := AWS_AUTH_PROFILE_PARSE_FATAL_ERROR\<rparr>)
                  else
                    (let trimmed_key_cursor =
                           aws_byte_cursor_right_trim_pred key_cursor s_is_whitespace;
                         id_check_cursor =
                           aws_byte_cursor_trim_pred trimmed_key_cursor s_is_identifier
                     in if length id_check_cursor > 0
                        then (True, context1\<lparr>parse_error :=
                                              AWS_AUTH_PROFILE_PARSE_RECOVERABLE_ERROR\<rparr>)
                        else
                          (let value_cursor = snd (snd (s_parse_by_character_predicate cursor3
                                                         s_is_whitespace 0))
                           in (True, context_update_property
                                 (\<lambda>p. s_profile_property_add_sub_property p
                                         trimmed_key_cursor value_cursor) context1))))))))"

definition s_parse_property ::
    "string \<Rightarrow> profile_file_parse_context \<Rightarrow> bool \<times> profile_file_parse_context" where
  "s_parse_property line_cursor context =
     (let property_line_cursor = s_trim_trailing_whitespace_comment line_cursor;
          property_cursor = aws_byte_cursor_right_trim_pred property_line_cursor s_is_whitespace;
          context1 = context\<lparr>current_property := None\<rparr>
      in case s_parse_by_character_predicate property_cursor s_is_not_assignment_operator 0 of
           (has_key, key_cursor, cursor1) \<Rightarrow>
      if \<not> has_key
      then (True, context1\<lparr>parse_error := AWS_AUTH_PROFILE_PARSE_FATAL_ERROR\<rparr>)
      else
        (let trimmed_key_cursor = aws_byte_cursor_right_trim_pred key_cursor s_is_whitespace;
             id_check_cursor = aws_byte_cursor_trim_pred trimmed_key_cursor s_is_identifier
         in if length id_check_cursor > 0
            then (True, context1\<lparr>parse_error := AWS_AUTH_PROFILE_PARSE_RECOVERABLE_ERROR\<rparr>)
            else
              (case s_parse_by_character_predicate cursor1 s_is_assignment_operator 1 of
                 (has_assignment, _, cursor2) \<Rightarrow>
               if \<not> has_assignment
               then (True, context1\<lparr>parse_error := AWS_AUTH_PROFILE_PARSE_FATAL_ERROR\<rparr>)
               else
                 (let value_cursor = snd (snd (s_parse_by_character_predicate cursor2
                                                s_is_whitespace 0))
                  in if current_profile context1 \<noteq> None
                     then (True,
                           (context_update_profile
                              (\<lambda>p. s_profile_add_property p trimmed_key_cursor value_cursor)
                              context1)\<lparr>current_property := Some trimmed_key_cursor\<rparr>)
                     else if has_seen_profile context1
                     then (True, context1\<lparr>parse_error :=
                                           AWS_AUTH_PROFILE_PARSE_RECOVERABLE_ERROR\<rparr>)
                     else (True, context1\<lparr>parse_error :=
                                           AWS_AUTH_PROFILE_PARSE_FATAL_ERROR\<rparr>)))))"

definition s_parse_and_apply_line_to_profile_collection ::
    "profile_file_parse_context \<Rightarrow> string \<Rightarrow> profile_file_parse_context" where
  "s_parse_and_apply_line_to_profile_collection context line_cursor =
     (let line = aws_byte_cursor_right_trim_pred line_cursor s_is_carriage_return
      in if length line = 0 \<or> s_is_comment_line line \<or> s_is_whitespace_line line
         then context
         else
           (case s_parse_profile_declaration line context of
              (is_declaration, context1) \<Rightarrow>
            if is_declaration then context1
            else
              (case s_parse_property_continuation line context1 of
                 (is_continuation, context2) \<Rightarrow>
               if is_continuation then context2
               else
                 (case s_parse_property line context2 of
                    (is_property, context3) \<Rightarrow>
                  if is_property then context3
                  else context3\<lparr>parse_error := AWS_AUTH_PROFILE_PARSE_FATAL_ERROR\<rparr>))))"

subsection \<open>The parse loop\<close>

text \<open>
  The loop of \<open>s_aws_profile_collection_new_internal\<close> takes the lines of the buffer one
  by one and leaves through \<open>cleanup\<close>, returning \<open>NULL\<close>, as soon as a line has set
  the fatal error; \<open>None\<close> is that outcome.
\<close>

fun s_parse_lines ::
    "profile_file_parse_context \<Rightarrow> string list \<Rightarrow> profile_file_parse_context option" where
  "s_parse_lines context [] = Some context"
| "s_parse_lines context (line_cursor # rest) =
     (let context1 = s_parse_and_apply_line_to_profile_collection context line_cursor
      in if parse_error context1 = AWS_AUTH_PROFILE_PARSE_FATAL_ERROR then None
         else s_parse_lines context1 rest)"

definition s_initial_context :: "aws_profile_source_type \<Rightarrow> profile_file_parse_context" where
  "s_initial_context source =
     \<lparr>profile_collection = \<lparr>profile_source = source, profiles = []\<rparr>,
      current_profile = None, current_property = None,
      parse_error = PARSE_NO_ERROR, has_seen_profile = False\<rparr>"

definition s_aws_profile_collection_new_internal ::
    "string \<Rightarrow> aws_profile_source_type \<Rightarrow> aws_profile_collection option" where
  "s_aws_profile_collection_new_internal buffer source =
     map_option profile_collection
       (s_parse_lines (s_initial_context source) (split_on_char (CHR 0x0A) buffer))"

definition aws_profile_collection_new_from_buffer ::
    "string \<Rightarrow> aws_profile_source_type \<Rightarrow> aws_profile_collection option" where
  "aws_profile_collection_new_from_buffer buffer source =
     s_aws_profile_collection_new_internal buffer source"

section \<open>XML node parser (xml\_parser.c)\<close>

text \<open>
  The parser walks a cursor (\<open>doc\<close>) over the document; a cursor is again the bytes it
  still covers, and a pointer into it is an offset from its start. \<open>s_advance_to_closing_tag\<close>
  searches with \<open>strstr\<close>, which reads up to a NUL byte, so the document is a C string:
  a NUL byte follows its last byte. A read one byte past a cursor that ends the document,
  as \<open>*(parser->doc.ptr + 1)\<close> can be, sees that byte.

  \<open>aws_raise_error\<close> records the error and yields \<open>AWS_OP_ERR\<close>; the model's
  \<open>AWS_OP_ERR\<close> carries the error raised. Where the source leaves C's defined behaviour
  (a call through a null function pointer, a cursor whose length has wrapped around) the
  model answers \<open>UNDEFINED_BEHAVIOUR\<close>.

  A callback receives the parser, the node and its user data, and may move the parser's
  cursor and change what the user data points at. The callback stack holds function
  pointers with their user data; the model keeps an entry of any type \<open>'cb\<close> for such a
  pair, and every function takes \<open>invoke\<close>, which says what calling an entry does, and
  the state \<open>'u\<close> reachable from the user data. The source ignores what a callback
  returns. The lengths of the arrays \<open>split_scratch\<close> and \<open>attributes\<close> of the parser
  struct are declared in a header that is not part of the sources; they are fields of the
  parser record.
\<close>

datatype aws_error = AWS_ERROR_MALFORMED_INPUT_STRING

datatype aws_op_result = AWS_OP_SUCCESS | AWS_OP_ERR aws_error | UNDEFINED_BEHAVIOUR

record aws_xml_attribute =
  attribute_name :: string
  attribute_value :: string

record aws_xml_node =
  node_name :: string
  node_attributes :: "aws_xml_attribute list"
  doc_at_body :: string

record 'cb aws_xml_parser =
  doc :: string
  cb_stack :: "'cb list"
  split_scratch_size :: nat
  attributes_size :: nat

type_synonym ('cb, 'u) xml_invoke =
  "'cb \<Rightarrow> 'cb aws_xml_parser \<Rightarrow> aws_xml_node \<Rightarrow> 'u \<Rightarrow> 'cb aws_xml_parser \<times> 'u"

definition aws_xml_parser_init :: "string \<Rightarrow> nat \<Rightarrow> nat \<Rightarrow> 'cb aws_xml_parser" where
  "aws_xml_parser_init document n_splits n_attributes =
     \<lparr>doc = document, cb_stack = [], split_scratch_size = n_splits,
      attributes_size = n_attributes\<rparr>"

text \<open>\<open>memchr\<close>: the offset of the first occurrence of a byte in a cursor.\<close>

fun memchr :: "string \<Rightarrow> char \<Rightarrow> nat option" where
  "memchr [] c = None"
| "memchr (x # xs) c = (if x = c then Some 0 else map_option Suc (memchr xs c))"

text \<open>The byte at an offset of a cursor; past the end of the document it is the NUL byte.\<close>

definition byte_at :: "string \<Rightarrow> nat \<Rightarrow> char" where
  "byte_at cursor i = (if i < length cursor then cursor ! i else CHR 0x00)"

text \<open>
  \<open>strstr\<close> on C strings: both arguments end at their first NUL byte; the result is the
  offset of the first occurrence of the needle.
\<close>

fun find_first :: "string \<Rightarrow> string \<Rightarrow> nat option" where
  "find_first [] needle = (if needle = [] then Some 0 else None)"
| "find_first (x # xs) needle =
     (if take (length needle) (x # xs) = needle then Some 0
      else map_option Suc (find_first xs needle))"

definition strstr :: "string \<Rightarrow> string \<Rightarrow> nat option" where
  "strstr haystack needle =
     find_first (takeWhile (\<lambda>c. c \<noteq> CHR 0x00) haystack) (takeWhile (\<lambda>c. c \<noteq> CHR 0x00) needle)"

text \<open>A difference of two offsets, stored in a \<open>size_t\<close>.\<close>

definition size_t_diff :: "nat \<Rightarrow> nat \<Rightarrow> nat" where
  "size_t_diff a b = nat ((int a - int b) mod 2 ^ 64)"

definition s_trim_quotes_fn :: "char \<Rightarrow> bool" where
  "s_trim_quotes_fn v = (v = CHR 0x22)"

text \<open>
  \<open>s_load_node_decl\<close> splits the text of the tag on spaces into at most
  \<open>split_scratch_size\<close> pieces; the first is the name. Every further piece is split on
  \<open>=\<close> into a two-element list: a piece with more than one \<open>=\<close> does not fit and is
  skipped, a piece without one has the empty value. At most \<open>attributes_size\<close>
  attributes are kept.
\<close>

definition s_load_attribute :: "string \<Rightarrow> aws_xml_attribute list" where
  "s_load_attribute attribute_pair =
     (let att_val_pair = split_on_char (CHR ''='') attribute_pair
      in if length att_val_pair > 2 then []
         else [\<lparr>attribute_name = hd att_val_pair,
                attribute_value = aws_byte_cursor_trim_pred
                  (case tl att_val_pair of [] \<Rightarrow> [] | v # _ \<Rightarrow> v) s_trim_quotes_fn\<rparr>])"

definition s_load_node_decl :: "'cb aws_xml_parser \<Rightarrow> string \<Rightarrow> aws_xml_node \<Rightarrow> aws_xml_node" where
  "s_load_node_decl parser decl_body node =
     (let splits = take (split_scratch_size parser) (split_on_char (CHR '' '') decl_body);
          node1 = node\<lparr>node_name := (case splits of [] \<Rightarrow> [] | n # _ \<Rightarrow> n)\<rparr>
      in if length splits > 1
         then node1\<lparr>node_attributes :=
                take (attributes_size parser) (concat (map s_load_attribute (tl splits)))\<rparr>
         else node1)"

text \<open>
  \<open>s_advance_to_closing_tag\<close> returns its status, the parser and the body it stores in
  \<open>out_body\<close> when that pointer is given. The comparison buffer \<open>name_close\<close> has 260
  bytes and takes \<open></\<close>, the name, \<open>>\<close> and a NUL byte.
\<close>

definition s_advance_to_closing_tag ::
    "'cb aws_xml_parser \<Rightarrow> aws_xml_node \<Rightarrow> aws_op_result \<times> 'cb aws_xml_parser \<times> string option" where
  "s_advance_to_closing_tag parser node =
     (let sizeof_name_close = (260::nat);
          closing_name_len = length (node_name node) + 4
      in if closing_name_len > length (doc_at_body node)
         then (AWS_OP_ERR AWS_ERROR_MALFORMED_INPUT_STRING, parser, None)
         else if sizeof_name_close < closing_name_len
         then (AWS_OP_ERR AWS_ERROR_MALFORMED_INPUT_STRING, parser, None)
         else
           (let cmp_buf = ''</'' @ node_name node @ ''>'' @ [CHR 0x00]
            in case strstr (doc_at_body node) cmp_buf of
                 None \<Rightarrow> (AWS_OP_ERR AWS_ERROR_MALFORMED_INPUT_STRING, parser, None)
               | Some len \<Rightarrow>
                   (AWS_OP_SUCCESS,
                    parser\<lparr>doc := aws_byte_cursor_advance (doc parser) (len + length cmp_buf - 1)\<rparr>,
                    Some (take len (doc_at_body node)))))"

definition aws_xml_node_as_body ::
    "'cb aws_xml_parser \<Rightarrow> aws_xml_node \<Rightarrow> aws_op_result \<times> 'cb aws_xml_parser \<times> string option" where
  "aws_xml_node_as_body parser node = s_advance_to_closing_tag parser node"

text \<open>
  \<open>s_node_next_sibling\<close> calls the callback on top of the stack. The source looks for
  \<open>>\<close> after it has moved the cursor to \<open><\<close>, so here the end of the tag never lies
  before its start.
\<close>

definition s_node_next_sibling ::
    "('cb, 'u) xml_invoke \<Rightarrow> 'cb aws_xml_parser \<Rightarrow> 'u \<Rightarrow> aws_op_result \<times> 'cb aws_xml_parser \<times> 'u" where
  "s_node_next_sibling invoke parser u =
     (case memchr (doc parser) (CHR ''<'') of
        None \<Rightarrow> (AWS_OP_SUCCESS, parser, u)
      | Some next_location \<Rightarrow>
          (let parser1 = parser\<lparr>doc := aws_byte_cursor_advance (doc parser) next_location\<rparr>
           in case memchr (doc parser1) (CHR ''>'') of
                None \<Rightarrow> (AWS_OP_ERR AWS_ERROR_MALFORMED_INPUT_STRING, parser1, u)
              | Some end_location \<Rightarrow>
                  (let node_name_len = end_location;
                       parser2 = parser1\<lparr>doc :=
                         aws_byte_cursor_advance (doc parser1) (end_location + 1)\<rparr>;
                       node_decl_body = take (node_name_len - 1) (drop 1 (doc parser1));
                       sibling_node = s_load_node_decl parser2 node_decl_body
                         \<lparr>node_name = [], node_attributes = [], doc_at_body = doc parser2\<rparr>
                   in case cb_stack parser2 of
                        [] \<Rightarrow> (UNDEFINED_BEHAVIOUR, parser2, u)
                      | _ # _ \<Rightarrow>
                          (case invoke (last (cb_stack parser2)) parser2 sibling_node u of
                             (parser3, u3) \<Rightarrow> (AWS_OP_SUCCESS, parser3, u3)))))"

text \<open>
  The loop at the head of \<open>aws_xml_parser_parse\<close> burns the preamble. It looks for \<open><\<close>
  and \<open>>\<close> from the same position, so \<open>>\<close> may lie before \<open><\<close>; the number of
  bytes to burn is then a wrapped difference.
\<close>

partial_function (option) s_skip_preamble :: "string \<Rightarrow> (aws_op_result \<times> string) option" where
  "s_skip_preamble document =
     (if length document = 0 then Some (AWS_OP_SUCCESS, document)
      else
        (case memchr document (CHR ''<'') of
           None \<Rightarrow> Some (AWS_OP_ERR AWS_ERROR_MALFORMED_INPUT_STRING, document)
         | Some start \<Rightarrow>
             (case memchr document (CHR ''>'') of
                None \<Rightarrow> Some (AWS_OP_ERR AWS_ERROR_MALFORMED_INPUT_STRING, document)
              | Some location \<Rightarrow>
                  (let document1 = aws_byte_cursor_advance document start
                   in if byte_at document1 1 = CHR ''?'' \<or> byte_at document1 1 = CHR ''!''
                      then s_skip_preamble
                             (aws_byte_cursor_advance document1 (size_t_diff (location + 1) start))
                      else Some (AWS_OP_SUCCESS, document1)))))"

text \<open>
  \<open>aws_xml_parser_parse\<close> pushes the callback and calls \<open>s_node_next_sibling\<close>, whose
  status it does not look at: it returns \<open>AWS_OP_SUCCESS\<close> once the preamble loop is left.
  \<open>None\<close> stands for a preamble loop that does not end.
\<close>

definition aws_xml_parser_parse ::
    "('cb, 'u) xml_invoke \<Rightarrow> 'cb aws_xml_parser \<Rightarrow> 'cb \<Rightarrow> 'u \<Rightarrow>
     (aws_op_result \<times> 'cb aws_xml_parser \<times> 'u) option" where
  "aws_xml_parser_parse invoke parser on_node_encountered u =
     (case s_skip_preamble (doc parser) of
        None \<Rightarrow> None
      | Some (status, document) \<Rightarrow>
          if status \<noteq> AWS_OP_SUCCESS then Some (status, parser\<lparr>doc := document\<rparr>, u)
          else
            (let parser1 = parser\<lparr>doc := document,
                                  cb_stack := cb_stack parser @ [on_node_encountered]\<rparr>
             in case s_node_next_sibling invoke parser1 u of
                  (status2, parser2, u2) \<Rightarrow>
                    Some (if status2 = UNDEFINED_BEHAVIOUR then UNDEFINED_BEHAVIOUR
                          else AWS_OP_SUCCESS, parser2, u2)))"

text \<open>
  The loop of \<open>aws_xml_node_traverse\<close>. Both \<open><\<close> and \<open>>\<close> are searched from the
  cursor; when \<open>>\<close> comes first and the tag is not a closing one, the length of the
  declaration wraps around and the declaration cursor leaves the document. After the
  callback the source calls \<open>s_advance_to_closing_tag\<close> with \<open>node\<close>, the node whose
  children are traversed, and ignores its status. An error leaves the loop without popping
  the callback stack.
\<close>

partial_function (option) s_traverse_loop ::
    "('cb, 'u) xml_invoke \<Rightarrow> aws_xml_node \<Rightarrow> 'cb \<Rightarrow> 'cb aws_xml_parser \<Rightarrow> 'u \<Rightarrow>
     (aws_op_result \<times> 'cb aws_xml_parser \<times> 'u) option" where
  "s_traverse_loop invoke node on_node_encountered parser u =
     (case memchr (doc parser) (CHR ''<'') of
        None \<Rightarrow> Some (AWS_OP_ERR AWS_ERROR_MALFORMED_INPUT_STRING, parser, u)
      | Some next_location \<Rightarrow>
          (case memchr (doc parser) (CHR ''>'') of
             None \<Rightarrow> Some (AWS_OP_ERR AWS_ERROR_MALFORMED_INPUT_STRING, parser, u)
           | Some end_location \<Rightarrow>
               (let parent_closed = (byte_at (doc parser) (next_location + 1) = CHR ''/'');
                    node_name_len = size_t_diff end_location next_location;
                    parser1 = parser\<lparr>doc :=
                      aws_byte_cursor_advance (doc parser) (end_location + 1)\<rparr>
                in if parent_closed
                   then Some (AWS_OP_SUCCESS, parser1\<lparr>cb_stack := butlast (cb_stack parser1)\<rparr>, u)
                   else if end_location < next_location
                   then Some (UNDEFINED_BEHAVIOUR, parser1, u)
                   else
                     (let decl_body = take (node_name_len - 1)
                                        (drop (next_location + 1) (doc parser));
                          next_node = s_load_node_decl parser1 decl_body
                            \<lparr>node_name = [], node_attributes = [], doc_at_body = doc parser1\<rparr>
                      in case invoke on_node_encountered parser1 next_node u of
                           (parser2, u2) \<Rightarrow>
                             (case s_advance_to_closing_tag parser2 node of
                                (_, parser3, _) \<Rightarrow>
                                  s_traverse_loop invoke node on_node_encountered parser3 u2)))))"

definition aws_xml_node_traverse ::
    "('cb, 'u) xml_invoke \<Rightarrow> 'cb aws_xml_parser \<Rightarrow> aws_xml_node \<Rightarrow> 'cb \<Rightarrow> 'u \<Rightarrow>
     (aws_op_result \<times> 'cb aws_xml_parser \<times> 'u) option" where
  "aws_xml_node_traverse invoke parser node on_node_encountered u =
     s_traverse_loop invoke node on_node_encountered
       (parser\<lparr>cb_stack := cb_stack parser @ [on_node_encountered]\<rparr>) u"

section \<open>Properties of the merge\<close>

lemma property_merge_fold_value:
  "property_value (fold s_profile_property_merge_iter subs d) = property_value d"
  by (induction subs arbitrary: d) (simp_all add: s_profile_property_merge_iter_def Let_def)

lemma property_merge_value:
  "property_value (s_profile_property_merge dest source) = property_value source"
  by (simp add: s_profile_property_merge_def Let_def property_merge_fold_value)

lemma profile_merge_iter_other:
  "fst entry \<noteq> k \<Longrightarrow>
   map_of (properties (s_profile_merge_iter entry d)) k = map_of (properties d) k"
  by (simp add: s_profile_merge_iter_def Let_def aws_hash_table_put_def update_conv'
      split: option.splits)

lemma profile_merge_iter_same:
  "\<exists>dp. map_of (properties (s_profile_merge_iter (k, sp) d)) k
          = Some (s_profile_property_merge dp sp)"
  by (auto simp: s_profile_merge_iter_def Let_def aws_hash_table_put_def update_conv'
      split: option.splits)

lemma profile_merge_fold_other:
  "k \<notin> fst ` set ps \<Longrightarrow>
   map_of (properties (fold s_profile_merge_iter ps d)) k = map_of (properties d) k"
  by (induction ps arbitrary: d) (auto simp: profile_merge_iter_other)

lemma profile_merge_fold_lookup:
  "distinct (map fst ps) \<Longrightarrow> map_of ps k = Some sp \<Longrightarrow>
   \<exists>dp. map_of (properties (fold s_profile_merge_iter ps d)) k
          = Some (s_profile_property_merge dp sp)"
proof (induction ps arbitrary: d)
  case Nil
  then show ?case by simp
next
  case (Cons e ps)
  show ?case
  proof (cases "fst e = k")
    case True
    with Cons.prems have sp: "snd e = sp" and notin: "k \<notin> fst ` set ps"
      by auto
    from True sp have e: "e = (k, sp)" by (cases e) simp
    obtain dp where "map_of (properties (s_profile_merge_iter (k, sp) d)) k
        = Some (s_profile_property_merge dp sp)"
      using profile_merge_iter_same by blast
    with notin e show ?thesis
      by (auto simp: profile_merge_fold_other)
  next
    case False
    with Cons.prems have "distinct (map fst ps)" and "map_of ps k = Some sp"
      by (auto split: if_splits)
    from Cons.IH [OF this] show ?thesis by simp
  qed
qed

lemma profile_merge_lookup:
  "distinct (map fst (properties source)) \<Longrightarrow> map_of (properties source) k = Some sp \<Longrightarrow>
   \<exists>dp. map_of (properties (s_profile_merge dest source)) k
          = Some (s_profile_property_merge dp sp)"
  unfolding s_profile_merge_def by (rule profile_merge_fold_lookup)

lemma collection_merge_iter_other:
  "fst entry \<noteq> k \<Longrightarrow>
   map_of (profiles (s_profile_collection_merge_iter entry d)) k = map_of (profiles d) k"
  by (simp add: s_profile_collection_merge_iter_def Let_def aws_hash_table_put_def update_conv'
      split: option.splits)

lemma collection_merge_iter_same:
  "\<exists>dp. map_of (profiles (s_profile_collection_merge_iter (k, sp) d)) k
          = Some (s_profile_merge dp sp)"
  by (auto simp: s_profile_collection_merge_iter_def Let_def aws_hash_table_put_def update_conv'
      split: option.splits)

lemma collection_merge_fold_other:
  "k \<notin> fst ` set ps \<Longrightarrow>
   map_of (profiles (fold s_profile_collection_merge_iter ps d)) k = map_of (profiles d) k"
  by (induction ps arbitrary: d) (auto simp: collection_merge_iter_other)

lemma collection_merge_fold_lookup:
  "distinct (map fst ps) \<Longrightarrow> map_of ps k = Some sp \<Longrightarrow>
   \<exists>dp. map_of (profiles (fold s_profile_collection_merge_iter ps d)) k
          = Some (s_profile_merge dp sp)"
proof (induction ps arbitrary: d)
  case Nil
  then show ?case by simp
next
  case (Cons e ps)
  show ?case
  proof (cases "fst e = k")
    case True
    with Cons.prems have sp: "snd e = sp" and notin: "k \<notin> fst ` set ps"
      by auto
    from True sp have e: "e = (k, sp)" by (cases e) simp
    obtain dp where "map_of (profiles (s_profile_collection_merge_iter (k, sp) d)) k
        = Some (s_profile_merge dp sp)"
      using collection_merge_iter_same by blast
    with notin e show ?thesis
      by (auto simp: collection_merge_fold_other)
  next
    case False
    with Cons.prems have "distinct (map fst ps)" and "map_of ps k = Some sp"
      by (auto split: if_splits)
    from Cons.IH [OF this] show ?thesis by simp
  qed
qed

lemma collection_merge_lookup:
  "distinct (map fst (profiles source)) \<Longrightarrow> map_of (profiles source) k = Some sp \<Longrightarrow>
   \<exists>dp. map_of (profiles (s_profile_collection_merge dest source)) k
          = Some (s_profile_merge dp sp)"
  unfolding s_profile_collection_merge_def by (rule collection_merge_fold_lookup)

subsection \<open>Credentials win over config\<close>

definition example_config :: aws_profile_collection where
  "example_config =
     \<lparr>profile_source = AWS_PST_CONFIG,
      profiles = [(''default'',
        \<lparr>profile_name = ''default'', has_profile_prefix = True,
         properties = [(''region'', aws_profile_property_new ''region'' ''us-east-1''),
                       (''output'', aws_profile_property_new ''output'' ''json'')]\<rparr>)]\<rparr>"

definition example_credentials :: aws_profile_collection where
  "example_credentials =
     \<lparr>profile_source = AWS_PST_CREDENTIALS,
      profiles = [(''default'',
        \<lparr>profile_name = ''default'', has_profile_prefix = False,
         properties = [(''region'', aws_profile_property_new ''region'' ''eu-west-1'')]\<rparr>)]\<rparr>"

text \<open>
  C1. Let the top-level merge be given a config collection and a credentials collection.
  For every profile name present in both and every property name defined in both profiles
  of that name, the merged collection has a profile of that name with that property, and
  the property's value is the one of the credentials collection. (The tables of the
  credentials collection hold each key once, as every hash table does.)
\<close>

theorem merge_credentials_value_wins:
  assumes "distinct (map fst (profiles credentials))"
    and "aws_profile_collection_get_profile config name = Some config_profile"
    and "aws_profile_collection_get_profile credentials name = Some credentials_profile"
    and "distinct (map fst (properties credentials_profile))"
    and "aws_profile_get_property config_profile key = Some config_property"
    and "aws_profile_get_property credentials_profile key = Some credentials_property"
  shows "\<exists>merged_profile merged_property.
           aws_profile_collection_get_profile
             (aws_profile_collection_new_from_merge (Some config) (Some credentials)) name
             = Some merged_profile \<and>
           aws_profile_get_property merged_profile key = Some merged_property \<and>
           property_value merged_property = property_value credentials_property"
proof -
  let ?merged1 = "s_profile_collection_merge \<lparr>profile_source = AWS_PST_NONE, profiles = []\<rparr> config"
  from assms(3) have "map_of (profiles credentials) name = Some credentials_profile"
    by (simp add: aws_profile_collection_get_profile_def aws_hash_table_find_def)
  from collection_merge_lookup [OF assms(1) this, of ?merged1]
  obtain dp where dp: "map_of (profiles (s_profile_collection_merge ?merged1 credentials)) name
      = Some (s_profile_merge dp credentials_profile)"
    by blast
  from assms(6) have "map_of (properties credentials_profile) key = Some credentials_property"
    by (simp add: aws_profile_get_property_def aws_hash_table_find_def)
  from profile_merge_lookup [OF assms(4) this, of dp]
  obtain dq where dq: "map_of (properties (s_profile_merge dp credentials_profile)) key
      = Some (s_profile_property_merge dq credentials_property)"
    by blast
  have "aws_profile_collection_get_profile
          (aws_profile_collection_new_from_merge (Some config) (Some credentials)) name
        = Some (s_profile_merge dp credentials_profile)"
    using dp
    by (simp add: aws_profile_collection_new_from_merge_def Let_def
        aws_profile_collection_get_profile_def aws_hash_table_find_def)
  moreover have "aws_profile_get_property (s_profile_merge dp credentials_profile) key
        = Some (s_profile_property_merge dq credentials_property)"
    using dq by (simp add: aws_profile_get_property_def aws_hash_table_find_def)
  ultimately show ?thesis
    by (simp add: property_merge_value)
qed

theorem merge_credentials_value_wins_witness:
  "\<exists>merged_profile merged_property.
     aws_profile_collection_get_profile
       (aws_profile_collection_new_from_merge (Some example_config) (Some example_credentials))
       ''default'' = Some merged_profile \<and>
     aws_profile_get_property merged_profile ''region'' = Some merged_property \<and>
     property_value merged_property = ''eu-west-1''"
  using merge_credentials_value_wins [of example_credentials example_config "''default''"
      "snd (hd (profiles example_config))" "snd (hd (profiles example_credentials))"
      "''region''" "aws_profile_property_new ''region'' ''us-east-1''"
      "aws_profile_property_new ''region'' ''eu-west-1''"]
  by (simp add: example_config_def example_credentials_def aws_profile_collection_get_profile_def
      aws_profile_get_property_def aws_hash_table_find_def aws_profile_property_new_def)

section \<open>Properties of the profile parser\<close>

subsection \<open>Cursor helpers and comment trimming\<close>

lemma parse_by_character_predicate_eq:
  "s_parse_by_character_predicate start p m = (takeWhile p start \<noteq> [], takeWhile p start, dropWhile p start)"
  by (simp add: s_parse_by_character_predicate_def Let_def takeWhile_eq_take [symmetric]
      dropWhile_eq_drop [symmetric])

lemma trim_ws_comment_append:
  "s_trim_trailing_whitespace_comment a = a \<Longrightarrow>
   (a \<noteq> [] \<and> s_is_whitespace (last a) \<longrightarrow> b = [] \<or> \<not> s_is_comment_token (hd b)) \<Longrightarrow>
   s_trim_trailing_whitespace_comment (a @ b) = a @ s_trim_trailing_whitespace_comment b"
proof (induction a)
  case Nil
  then show ?case by simp
next
  case (Cons x a)
  from Cons.prems(1) have nocut: "\<not> (s_is_whitespace x \<and> (case a of [] \<Rightarrow> False | n # _ \<Rightarrow> s_is_comment_token n))"
    and a: "s_trim_trailing_whitespace_comment a = a"
    by (simp_all split: if_splits)
  show ?case
  proof (cases a)
    case Nil
    with Cons.prems(2) have "\<not> (s_is_whitespace x \<and> (case b of [] \<Rightarrow> False | n # _ \<Rightarrow> s_is_comment_token n))"
      by (cases b) auto
    with Nil show ?thesis by simp
  next
    case (Cons y ys)
    with Cons.prems(2) have "a \<noteq> [] \<and> s_is_whitespace (last a) \<longrightarrow> b = [] \<or> \<not> s_is_comment_token (hd b)"
      by simp
    from Cons.IH [OF a this] nocut Cons show ?thesis by simp
  qed
qed

lemma trim_ws_comment_cut:
  "ws \<noteq> [] \<Longrightarrow> list_all s_is_whitespace ws \<Longrightarrow> s_is_comment_token c \<Longrightarrow>
   s_trim_trailing_whitespace_comment (ws @ c # rest) = butlast ws"
proof (induction ws)
  case Nil
  then show ?case by simp
next
  case (Cons w ws)
  then show ?case
    by (cases ws) (auto simp: s_is_whitespace_def s_is_comment_token_def)
qed
lemma trim_ws_comment_iff:
  "(s_trim_trailing_whitespace_comment line \<noteq> line) =
   (\<exists>i. Suc i < length line \<and> s_is_whitespace (line ! i) \<and> s_is_comment_token (line ! Suc i))"
proof (induction line)
  case Nil
  then show ?case by simp
next
  case (Cons x xs)
  show ?case
  proof (cases "s_is_whitespace x \<and> (case xs of [] \<Rightarrow> False | n # _ \<Rightarrow> s_is_comment_token n)")
    case True
    then have "Suc 0 < length (x # xs) \<and> s_is_whitespace ((x # xs) ! 0) \<and> s_is_comment_token ((x # xs) ! Suc 0)"
      by (cases xs) auto
    then have "\<exists>i. Suc i < length (x # xs) \<and> s_is_whitespace ((x # xs) ! i) \<and> s_is_comment_token ((x # xs) ! Suc i)"
      by blast
    with True show ?thesis by simp
  next
    case False
    have "(\<exists>i. Suc i < length (x # xs) \<and> s_is_whitespace ((x # xs) ! i) \<and> s_is_comment_token ((x # xs) ! Suc i))
        = (\<exists>i. Suc i < length xs \<and> s_is_whitespace (xs ! i) \<and> s_is_comment_token (xs ! Suc i))"
      (is "?L = ?R")
    proof
      assume ?L
      then obtain i where i: "Suc i < length (x # xs)" "s_is_whitespace ((x # xs) ! i)"
          "s_is_comment_token ((x # xs) ! Suc i)" by blast
      show ?R
      proof (cases i)
        case 0
        with i False show ?thesis by (cases xs) auto
      next
        case (Suc j)
        with i show ?thesis by auto
      qed
    next
      assume ?R
      then obtain i where "Suc i < length xs" "s_is_whitespace (xs ! i)" "s_is_comment_token (xs ! Suc i)"
        by blast
      then have "Suc (Suc i) < length (x # xs) \<and> s_is_whitespace ((x # xs) ! Suc i) \<and>
          s_is_comment_token ((x # xs) ! Suc (Suc i))" by simp
      then show ?L by blast
    qed
    with False Cons.IH show ?thesis by auto
  qed
qed

lemma right_trim_id:
  "xs = [] \<or> \<not> p (last xs) \<Longrightarrow> aws_byte_cursor_right_trim_pred xs p = xs"
  by (cases xs rule: rev_cases) (auto simp: aws_byte_cursor_right_trim_pred_def)

lemma right_trim_append_all:
  "list_all p ws \<Longrightarrow> aws_byte_cursor_right_trim_pred (xs @ ws) p = aws_byte_cursor_right_trim_pred xs p"
  by (induction ws rule: rev_induct) (auto simp: aws_byte_cursor_right_trim_pred_def)

lemma right_trim_Cons_keep:
  "\<not> p x \<Longrightarrow> aws_byte_cursor_right_trim_pred (a @ x # b) p = a @ x # aws_byte_cursor_right_trim_pred b p"
proof (induction b rule: rev_induct)
  case Nil
  then show ?case by (simp add: aws_byte_cursor_right_trim_pred_def)
next
  case (snoc y ys)
  have "aws_byte_cursor_right_trim_pred ((a @ x # ys) @ [y]) p =
        (if p y then aws_byte_cursor_right_trim_pred (a @ x # ys) p else (a @ x # ys) @ [y])"
    by (simp add: aws_byte_cursor_right_trim_pred_def)
  moreover have "aws_byte_cursor_right_trim_pred (ys @ [y]) p =
        (if p y then aws_byte_cursor_right_trim_pred ys p else ys @ [y])"
    by (simp add: aws_byte_cursor_right_trim_pred_def)
  ultimately show ?case using snoc by simp
qed

lemma right_trim_prefix:
  "\<exists>r. xs = aws_byte_cursor_right_trim_pred xs p @ r"
proof -
  have "xs = rev (dropWhile p (rev xs)) @ rev (takeWhile p (rev xs))"
    by (metis rev_append rev_rev_ident takeWhile_dropWhile_id)
  then show ?thesis unfolding aws_byte_cursor_right_trim_pred_def by blast
qed

lemma identifier_not_special:
  "s_is_identifier c \<Longrightarrow>
   \<not> s_is_whitespace c \<and> \<not> s_is_comment_token c \<and> \<not> s_is_profile_start c \<and>
   s_is_not_assignment_operator c \<and> \<not> s_is_carriage_return c \<and> s_is_not_comment_token c
   \<and> \<not> s_is_assignment_operator c"
  by (auto simp: s_is_identifier_def s_is_whitespace_def s_is_comment_token_def
      s_is_profile_start_def s_is_not_assignment_operator_def s_is_assignment_operator_def
      s_is_carriage_return_def s_is_not_comment_token_def)

lemma whitespace_not_special:
  "s_is_whitespace c \<Longrightarrow>
   \<not> s_is_comment_token c \<and> s_is_not_assignment_operator c \<and> s_is_not_comment_token c
   \<and> \<not> s_is_assignment_operator c \<and> \<not> s_is_identifier c \<and> \<not> s_is_profile_start c"
  by (auto simp: s_is_identifier_def s_is_whitespace_def s_is_comment_token_def
      s_is_profile_start_def s_is_not_assignment_operator_def s_is_assignment_operator_def
      s_is_not_comment_token_def)

lemma trim_ws_comment_no_token:
  "list_all s_is_not_comment_token a \<Longrightarrow> s_trim_trailing_whitespace_comment a = a"
  by (induction a) (auto simp: s_is_not_comment_token_def split: list.splits)

subsection \<open>Property-definition lines\<close>

text \<open>
  A property-definition line has the form \<open>key ws = rest\<close>: a key of identifier
  characters, whitespace, the assignment operator and the rest of the line.
  \<open>property_line_value\<close> is what the trimming steps of \<open>s_parse_property\<close> leave of
  the rest as the value; \<open>property_line_context\<close> is the context after such a line.
\<close>

definition property_line_value :: "string \<Rightarrow> string" where
  "property_line_value rest =
     dropWhile s_is_whitespace (dropWhile s_is_assignment_operator
       (aws_byte_cursor_right_trim_pred
          (s_trim_trailing_whitespace_comment
             (aws_byte_cursor_right_trim_pred rest s_is_carriage_return))
          s_is_whitespace))"

definition is_property_key :: "string \<Rightarrow> bool" where
  "is_property_key key = (key \<noteq> [] \<and> list_all s_is_identifier key)"

lemma property_line_not_declaration:
  assumes "is_property_key key"
  shows "s_parse_profile_declaration (key @ r) context = (False, context)"
proof -
  from assms obtain k ks where key: "key = k # ks" and k: "s_is_identifier k"
    by (cases key) (auto simp: is_property_key_def)
  let ?t = "s_trim_trailing_comment (key @ r)"
  have "?t = k # takeWhile s_is_not_comment_token (ks @ r)"
    using k identifier_not_special [OF k]
    by (simp add: s_trim_trailing_comment_def parse_by_character_predicate_eq key)
  then have "aws_byte_cursor_right_trim_pred ?t s_is_whitespace
      = k # aws_byte_cursor_right_trim_pred (takeWhile s_is_not_comment_token (ks @ r)) s_is_whitespace"
    using right_trim_Cons_keep [of s_is_whitespace k "[]"] identifier_not_special [OF k] by simp
  then show ?thesis
    using identifier_not_special [OF k]
    by (simp add: s_parse_profile_declaration_def Let_def parse_by_character_predicate_eq)
qed

lemma property_line_not_continuation:
  assumes "is_property_key key"
  shows "s_parse_property_continuation (key @ r) context = (False, context)"
proof -
  from assms obtain k ks where key: "key = k # ks" and k: "s_is_identifier k"
    by (cases key) (auto simp: is_property_key_def)
  have "aws_byte_cursor_right_trim_pred (key @ r) s_is_whitespace
      = k # aws_byte_cursor_right_trim_pred (ks @ r) s_is_whitespace"
    using right_trim_Cons_keep [of s_is_whitespace k "[]"] identifier_not_special [OF k] key by simp
  then show ?thesis
    using identifier_not_special [OF k]
    by (simp add: s_parse_property_continuation_def Let_def parse_by_character_predicate_eq)
qed

lemma takeWhile_all: "list_all p a \<Longrightarrow> \<not> p x \<Longrightarrow> takeWhile p (a @ x # b) = a"
  by (induction a) auto

lemma dropWhile_all: "list_all p a \<Longrightarrow> \<not> p x \<Longrightarrow> dropWhile p (a @ x # b) = x # b"
  by (induction a) auto

lemma dropWhile_all_nil: "list_all p a \<Longrightarrow> dropWhile p a = []"
  by (induction a) auto

lemma list_all_mono': "list_all p a \<Longrightarrow> (\<And>x. p x \<Longrightarrow> q x) \<Longrightarrow> list_all q a"
  by (induction a) auto

lemma key_ws_not_assignment:
  "is_property_key key \<Longrightarrow> list_all s_is_whitespace ws \<Longrightarrow>
   list_all s_is_not_assignment_operator (key @ ws) \<and> list_all s_is_not_comment_token (key @ ws)"
  using identifier_not_special whitespace_not_special
  by (auto simp: is_property_key_def list_all_iff)

definition property_line_context ::
    "string \<Rightarrow> string \<Rightarrow> profile_file_parse_context \<Rightarrow> profile_file_parse_context" where
  "property_line_context key val context =
     (if current_profile context \<noteq> None
      then (context_update_profile (\<lambda>p. s_profile_add_property p key val)
              (context\<lparr>current_property := None\<rparr>))\<lparr>current_property := Some key\<rparr>
      else if has_seen_profile context
      then context\<lparr>current_property := None,
                   parse_error := AWS_AUTH_PROFILE_PARSE_RECOVERABLE_ERROR\<rparr>
      else context\<lparr>current_property := None,
                   parse_error := AWS_AUTH_PROFILE_PARSE_FATAL_ERROR\<rparr>)"

lemma parse_property_line:
  assumes key: "is_property_key key" and ws: "list_all s_is_whitespace ws"
  shows "s_parse_property (key @ ws @ CHR ''='' # rest) context =
         (True, property_line_context key
            (dropWhile s_is_whitespace (dropWhile s_is_assignment_operator
               (aws_byte_cursor_right_trim_pred (s_trim_trailing_whitespace_comment rest)
                  s_is_whitespace))) context)"
proof -
  let ?R = "aws_byte_cursor_right_trim_pred (s_trim_trailing_whitespace_comment rest) s_is_whitespace"
  note kw = key_ws_not_assignment [OF key ws]
  have eq_ws: "\<not> s_is_whitespace CHR ''=''" "\<not> s_is_comment_token CHR ''=''"
    "\<not> s_is_not_assignment_operator CHR ''=''" "s_is_assignment_operator CHR ''=''"
    by (simp_all add: s_is_whitespace_def s_is_comment_token_def
        s_is_not_assignment_operator_def s_is_assignment_operator_def)
  have t1: "s_trim_trailing_whitespace_comment ((key @ ws) @ CHR ''='' # rest)
      = (key @ ws) @ s_trim_trailing_whitespace_comment (CHR ''='' # rest)"
    by (rule trim_ws_comment_append)
       (use kw eq_ws in \<open>simp_all add: trim_ws_comment_no_token\<close>)
  have t2: "s_trim_trailing_whitespace_comment (CHR ''='' # rest)
      = CHR ''='' # s_trim_trailing_whitespace_comment rest"
    using eq_ws by simp
  have cur: "aws_byte_cursor_right_trim_pred
      (s_trim_trailing_whitespace_comment (key @ ws @ CHR ''='' # rest)) s_is_whitespace
      = (key @ ws) @ CHR ''='' # ?R"
    using t1 t2 right_trim_Cons_keep [of s_is_whitespace "CHR ''=''" "key @ ws"] eq_ws
    by simp
  have tk: "takeWhile s_is_not_assignment_operator ((key @ ws) @ CHR ''='' # ?R) = key @ ws"
    by (rule takeWhile_all) (use kw eq_ws in simp_all)
  have dk: "dropWhile s_is_not_assignment_operator ((key @ ws) @ CHR ''='' # ?R) = CHR ''='' # ?R"
    by (rule dropWhile_all) (use kw eq_ws in simp_all)
  from key have ne: "key @ ws \<noteq> []" by (simp add: is_property_key_def)
  from key obtain k ks where kk: "key = ks @ [k]" and k: "s_is_identifier k"
    by (cases key rule: rev_cases) (auto simp: is_property_key_def)
  have trimmed: "aws_byte_cursor_right_trim_pred (key @ ws) s_is_whitespace = key"
    using right_trim_append_all [OF ws, of key] right_trim_id [of key s_is_whitespace]
      identifier_not_special [OF k] kk by simp
  have idc: "aws_byte_cursor_trim_pred key s_is_identifier = []"
    using key by (simp add: aws_byte_cursor_trim_pred_def aws_byte_cursor_left_trim_pred_def
        aws_byte_cursor_right_trim_pred_def dropWhile_all_nil is_property_key_def)
  show ?thesis
    unfolding s_parse_property_def Let_def cur parse_by_character_predicate_eq tk dk
    using ne eq_ws
    by (simp add: trimmed idc property_line_context_def)
qed

lemma apply_property_line:
  assumes key: "is_property_key key" and ws: "list_all s_is_whitespace ws"
  shows "s_parse_and_apply_line_to_profile_collection context (key @ ws @ CHR ''='' # rest) =
         property_line_context key (property_line_value rest) context"
proof -
  let ?rest1 = "aws_byte_cursor_right_trim_pred rest s_is_carriage_return"
  from key obtain k ks where kk: "key = k # ks" and k: "s_is_identifier k"
    by (cases key) (auto simp: is_property_key_def)
  have line1: "aws_byte_cursor_right_trim_pred (key @ ws @ CHR ''='' # rest) s_is_carriage_return
      = key @ ws @ CHR ''='' # ?rest1"
    using right_trim_Cons_keep [of s_is_carriage_return "CHR ''=''" "key @ ws" rest]
    by (simp add: s_is_carriage_return_def)
  have not_skipped: "\<not> (length (key @ ws @ CHR ''='' # ?rest1) = 0 \<or>
      s_is_comment_line (key @ ws @ CHR ''='' # ?rest1) \<or>
      s_is_whitespace_line (key @ ws @ CHR ''='' # ?rest1))"
    using identifier_not_special [OF k] kk
    by (simp add: s_is_comment_line_def s_is_whitespace_line_def
        aws_byte_cursor_left_trim_pred_def s_is_comment_token_def)
  show ?thesis
    unfolding s_parse_and_apply_line_to_profile_collection_def Let_def line1
    using not_skipped
    by (simp add: property_line_not_declaration [OF key] property_line_not_continuation [OF key]
        parse_property_line [OF key ws] property_line_value_def del: length_0_conv)
qed

lemma property_line_value_plain:
  assumes "v \<noteq> []" "\<not> s_is_whitespace (hd v)" "\<not> s_is_comment_token (hd v)"
    "\<not> s_is_whitespace (last v)" "s_trim_trailing_whitespace_comment v = v"
  shows "property_line_value ('' '' @ v) = v"
proof -
  from assms(1,4) have cr: "aws_byte_cursor_right_trim_pred ('' '' @ v) s_is_carriage_return = '' '' @ v"
    by (intro right_trim_id) (simp add: s_is_carriage_return_def s_is_whitespace_def)
  from assms(1,3,5) have tr: "s_trim_trailing_whitespace_comment ('' '' @ v) = '' '' @ v"
    by (cases v) auto
  from assms(1,4) have rt: "aws_byte_cursor_right_trim_pred ('' '' @ v) s_is_whitespace = '' '' @ v"
    by (intro right_trim_id) simp
  from assms(1,2) have "dropWhile s_is_whitespace ('' '' @ v) = v"
    by (cases v) (simp_all add: s_is_whitespace_def)
  then show ?thesis
    unfolding property_line_value_def cr tr rt
    by (simp add: s_is_assignment_operator_def)
qed

lemma property_line_value_comment:
  assumes "v \<noteq> []" "\<not> s_is_whitespace (hd v)" "\<not> s_is_comment_token (hd v)"
    "\<not> s_is_whitespace (last v)" "s_trim_trailing_whitespace_comment v = v"
    and ws: "ws \<noteq> []" "list_all s_is_whitespace ws" and c: "s_is_comment_token c"
  shows "property_line_value ('' '' @ v @ ws @ c # comment) = v"
proof -
  let ?cm = "aws_byte_cursor_right_trim_pred comment s_is_carriage_return"
  have ccr: "\<not> s_is_carriage_return c"
    using c by (auto simp: s_is_carriage_return_def s_is_comment_token_def)
  have cr: "aws_byte_cursor_right_trim_pred ('' '' @ v @ ws @ c # comment) s_is_carriage_return
      = ('' '' @ v) @ ws @ c # ?cm"
    using right_trim_Cons_keep [of s_is_carriage_return c "'' '' @ v @ ws" comment] ccr by simp
  from assms(1,3,5) have tr0: "s_trim_trailing_whitespace_comment ('' '' @ v) = '' '' @ v"
    by (cases v) auto
  have tr: "s_trim_trailing_whitespace_comment (('' '' @ v) @ ws @ c # ?cm) = ('' '' @ v) @ butlast ws"
    using trim_ws_comment_append [OF tr0, of "ws @ c # ?cm"] assms(1,4)
      trim_ws_comment_cut [OF ws c, of ?cm]
    by simp
  have "list_all s_is_whitespace (butlast ws)"
    using ws(2) by (auto simp: list_all_iff dest: in_set_butlastD)
  from right_trim_append_all [OF this, of "'' '' @ v"] assms(1,4)
  have rt: "aws_byte_cursor_right_trim_pred (('' '' @ v) @ butlast ws) s_is_whitespace = '' '' @ v"
    using right_trim_id [of "'' '' @ v" s_is_whitespace] by simp
  from assms(1,2) have "dropWhile s_is_whitespace ('' '' @ v) = v"
    by (cases v) (simp_all add: s_is_whitespace_def)
  then show ?thesis
    unfolding property_line_value_def cr tr rt
    by (simp add: s_is_assignment_operator_def)
qed

lemma current_property_after_property_line:
  assumes "current_profile context = Some profile_key"
    and "aws_hash_table_find (profiles (profile_collection context)) profile_key = Some profile"
  shows "context_current_property (property_line_context key val context)
         = Some (aws_profile_property_new key val)"
  using assms
  by (simp add: property_line_context_def context_current_property_def
      context_current_profile_def context_update_profile_def s_profile_add_property_def
      aws_hash_table_find_def aws_hash_table_put_def map_of_map_entry update_conv')

definition example_context :: profile_file_parse_context where
  "example_context =
     \<lparr>profile_collection =
        \<lparr>profile_source = AWS_PST_CREDENTIALS,
         profiles = [(''foo'', aws_profile_new ''foo'' False)]\<rparr>,
      current_profile = Some ''foo'', current_property = None,
      parse_error = PARSE_NO_ERROR, has_seen_profile = True\<rparr>"

text \<open>
  C5. On a property-definition line a trailing comment is cut off exactly where a
  whitespace byte is followed by a comment token: the line is shortened if and only if it
  holds such a pair. With a current profile, the line \<open>key = v\<close> followed by whitespace,
  a comment token and any text stores the value \<open>v\<close>, and the line \<open>key = v\<close> stores
  \<open>v\<close> as it is, also when \<open>v\<close> holds comment tokens that no whitespace precedes
  (\<open>v\<close> is any text that neither starts nor ends with whitespace, does not start with a
  comment token, and holds no whitespace byte followed by a comment token). In both cases
  the property that the profile then holds is named \<open>key\<close>, its value is \<open>v\<close>, it is not
  empty-valued and it has no sub-properties.
\<close>

theorem trailing_comment_needs_whitespace:
  assumes key: "is_property_key key"
    and v: "v \<noteq> []" "\<not> s_is_whitespace (hd v)" "\<not> s_is_comment_token (hd v)"
      "\<not> s_is_whitespace (last v)" "s_trim_trailing_whitespace_comment v = v"
    and ws: "ws \<noteq> []" "list_all s_is_whitespace ws" and c: "s_is_comment_token c"
    and current: "current_profile context = Some profile_key"
      "aws_hash_table_find (profiles (profile_collection context)) profile_key = Some profile"
  shows "context_current_property
           (s_parse_and_apply_line_to_profile_collection context
              (key @ '' = '' @ v @ ws @ c # comment))
         = Some \<lparr>property_name = key, property_value = v, is_empty_valued = False,
                  sub_properties = []\<rparr> \<and>
         context_current_property
           (s_parse_and_apply_line_to_profile_collection context (key @ '' = '' @ v))
         = Some \<lparr>property_name = key, property_value = v, is_empty_valued = False,
                  sub_properties = []\<rparr> \<and>
         ((s_trim_trailing_whitespace_comment line \<noteq> line) =
          (\<exists>i. Suc i < length line \<and> s_is_whitespace (line ! i) \<and>
               s_is_comment_token (line ! Suc i)))"
proof -
  have sp: "list_all s_is_whitespace '' ''"
    by (simp add: s_is_whitespace_def)
  have "s_parse_and_apply_line_to_profile_collection context
          (key @ '' = '' @ v @ ws @ c # comment)
        = property_line_context key v context"
    using apply_property_line [OF key sp, of "context" "'' '' @ v @ ws @ c # comment"]
      property_line_value_comment [OF v ws c, of comment]
    by simp
  moreover have "s_parse_and_apply_line_to_profile_collection context (key @ '' = '' @ v)
        = property_line_context key v context"
    using apply_property_line [OF key sp, of "context" "'' '' @ v"]
      property_line_value_plain [OF v]
    by simp
  moreover have "aws_profile_property_new key v
        = \<lparr>property_name = key, property_value = v, is_empty_valued = False,
           sub_properties = []\<rparr>"
    using v(1) by (simp add: aws_profile_property_new_def)
  ultimately show ?thesis
    using current_property_after_property_line [OF current] trim_ws_comment_iff
    by simp
qed

theorem trailing_comment_needs_whitespace_witness:
  "context_current_property
     (s_parse_and_apply_line_to_profile_collection example_context ''key = v #comment'')
   = Some \<lparr>property_name = ''key'', property_value = ''v'', is_empty_valued = False,
            sub_properties = []\<rparr> \<and>
   context_current_property
     (s_parse_and_apply_line_to_profile_collection example_context ''key = v#comment'')
   = Some \<lparr>property_name = ''key'', property_value = ''v#comment'', is_empty_valued = False,
            sub_properties = []\<rparr>"
  using trailing_comment_needs_whitespace [of "''key''" "''v''" "'' ''" "CHR ''#''"
      example_context "''foo''" "aws_profile_new ''foo'' False" "''comment''" "[]"]
    trailing_comment_needs_whitespace [of "''key''" "''v#comment''" "'' ''" "CHR ''#''"
      example_context "''foo''" "aws_profile_new ''foo'' False" "[]" "[]"]
  by (simp add: is_property_key_def s_is_identifier_def s_is_whitespace_def
      s_is_comment_token_def example_context_def aws_hash_table_find_def)

lemma add_profile_current:
  "snd (s_profile_collection_add_profile collection name has_prefix) = Some k \<Longrightarrow>
   k = name \<and> map_of (profiles (fst (s_profile_collection_add_profile collection name has_prefix))) name \<noteq> None"
  by (auto simp: s_profile_collection_add_profile_def Let_def aws_hash_table_find_def
      aws_hash_table_put_def aws_hash_table_remove_def update_conv' delete_conv'
      split: if_splits option.splits)

subsection \<open>Profile declarations in normal form\<close>

text \<open>
  What \<open>s_parse_profile_declaration\<close> does with a line depends on the line and on the
  source kind of the collection only: the line is no declaration, or it is rejected with an
  error, or it declares a profile and is handed to \<open>s_profile_collection_add_profile\<close>.
  \<open>classify_declaration\<close> is that decision, \<open>apply_declaration\<close> its effect on the
  context; the lemma \<open>declaration_normal_form\<close> shows that the two together are the
  function of the source.
\<close>

datatype declaration_outcome =
  Not_a_declaration
| Declaration_rejected profile_parse_error
| Declaration_accepted string bool

definition classify_declaration :: "aws_profile_source_type \<Rightarrow> string \<Rightarrow> declaration_outcome" where
  "classify_declaration source line_cursor =
     (let profile_cursor = aws_byte_cursor_right_trim_pred
                             (takeWhile s_is_not_comment_token line_cursor) s_is_whitespace
      in if takeWhile s_is_profile_start profile_cursor = [] then Not_a_declaration
         else
           (let backtrack_cursor =
                  dropWhile s_is_whitespace (dropWhile s_is_profile_start profile_cursor);
                token_result = s_parse_by_token backtrack_cursor s_profile_token;
                has_prefix = (fst token_result \<and>
                              takeWhile s_is_whitespace (snd (snd token_result)) \<noteq> []);
                cursor2 = (if has_prefix
                           then dropWhile s_is_whitespace
                                  (dropWhile s_is_whitespace (snd (snd token_result)))
                           else backtrack_cursor);
                name = takeWhile s_is_identifier cursor2;
                cursor4 = dropWhile s_is_whitespace (dropWhile s_is_identifier cursor2)
            in if has_prefix \<and> source = AWS_PST_CREDENTIALS
               then Declaration_rejected AWS_AUTH_PROFILE_PARSE_RECOVERABLE_ERROR
               else if name = []
               then Declaration_rejected AWS_AUTH_PROFILE_PARSE_RECOVERABLE_ERROR
               else if source = AWS_PST_CONFIG \<and> \<not> has_prefix \<and> \<not> s_is_default_profile_name name
               then Declaration_rejected AWS_AUTH_PROFILE_PARSE_RECOVERABLE_ERROR
               else if dropWhile s_is_not_profile_end cursor4 = []
               then Declaration_rejected AWS_AUTH_PROFILE_PARSE_FATAL_ERROR
               else if takeWhile s_is_not_profile_end cursor4 \<noteq> []
               then Declaration_rejected AWS_AUTH_PROFILE_PARSE_RECOVERABLE_ERROR
               else Declaration_accepted name has_prefix))"

definition apply_declaration ::
    "declaration_outcome \<Rightarrow> profile_file_parse_context \<Rightarrow> bool \<times> profile_file_parse_context" where
  "apply_declaration outcome ctx =
     (case outcome of
        Not_a_declaration \<Rightarrow> (False, ctx)
      | Declaration_rejected e \<Rightarrow>
          (True, ctx\<lparr>has_seen_profile := True, current_profile := None,
                     current_property := None, parse_error := e\<rparr>)
      | Declaration_accepted name has_prefix \<Rightarrow>
          (True, ctx\<lparr>has_seen_profile := True, current_property := None,
                     profile_collection :=
                       fst (s_profile_collection_add_profile (profile_collection ctx) name has_prefix),
                     current_profile :=
                       snd (s_profile_collection_add_profile (profile_collection ctx) name has_prefix)\<rparr>))"

lemma declaration_normal_form:
  "s_parse_profile_declaration l ctx =
   apply_declaration (classify_declaration (profile_source (profile_collection ctx)) l) ctx"
proof -
  define pc where "pc = aws_byte_cursor_right_trim_pred
      (takeWhile s_is_not_comment_token l) s_is_whitespace"
  define bt where "bt = dropWhile s_is_whitespace (dropWhile s_is_profile_start pc)"
  define tr where "tr = s_parse_by_token bt s_profile_token"
  define hp where "hp = (fst tr \<and> takeWhile s_is_whitespace (snd (snd tr)) \<noteq> [])"
  define c2 where "c2 = (if hp then dropWhile s_is_whitespace (dropWhile s_is_whitespace (snd (snd tr)))
      else bt)"
  define nm where "nm = takeWhile s_is_identifier c2"
  define c4 where "c4 = dropWhile s_is_whitespace (dropWhile s_is_identifier c2)"
  let ?src = "profile_source (profile_collection ctx)"
  have cls: "classify_declaration ?src l =
      (if takeWhile s_is_profile_start pc = [] then Not_a_declaration
       else if hp \<and> ?src = AWS_PST_CREDENTIALS
       then Declaration_rejected AWS_AUTH_PROFILE_PARSE_RECOVERABLE_ERROR
       else if nm = [] then Declaration_rejected AWS_AUTH_PROFILE_PARSE_RECOVERABLE_ERROR
       else if ?src = AWS_PST_CONFIG \<and> \<not> hp \<and> \<not> s_is_default_profile_name nm
       then Declaration_rejected AWS_AUTH_PROFILE_PARSE_RECOVERABLE_ERROR
       else if dropWhile s_is_not_profile_end c4 = []
       then Declaration_rejected AWS_AUTH_PROFILE_PARSE_FATAL_ERROR
       else if takeWhile s_is_not_profile_end c4 \<noteq> []
       then Declaration_rejected AWS_AUTH_PROFILE_PARSE_RECOVERABLE_ERROR
       else Declaration_accepted nm hp)"
    unfolding classify_declaration_def Let_def pc_def bt_def tr_def hp_def c2_def nm_def c4_def
    by (rule refl)
  have dcl: "s_parse_profile_declaration l ctx =
      (if takeWhile s_is_profile_start pc = [] then (False, ctx)
       else if hp \<and> ?src = AWS_PST_CREDENTIALS
       then (True, ctx\<lparr>has_seen_profile := True, current_profile := None,
               current_property := None, parse_error := AWS_AUTH_PROFILE_PARSE_RECOVERABLE_ERROR\<rparr>)
       else if nm = []
       then (True, ctx\<lparr>has_seen_profile := True, current_profile := None,
               current_property := None, parse_error := AWS_AUTH_PROFILE_PARSE_RECOVERABLE_ERROR\<rparr>)
       else if ?src = AWS_PST_CONFIG \<and> \<not> hp \<and> \<not> s_is_default_profile_name nm
       then (True, ctx\<lparr>has_seen_profile := True, current_profile := None,
               current_property := None, parse_error := AWS_AUTH_PROFILE_PARSE_RECOVERABLE_ERROR\<rparr>)
       else if dropWhile s_is_not_profile_end c4 = []
       then (True, ctx\<lparr>has_seen_profile := True, current_profile := None,
               current_property := None, parse_error := AWS_AUTH_PROFILE_PARSE_FATAL_ERROR\<rparr>)
       else if takeWhile s_is_not_profile_end c4 \<noteq> []
       then (True, ctx\<lparr>has_seen_profile := True, current_profile := None,
               current_property := None, parse_error := AWS_AUTH_PROFILE_PARSE_RECOVERABLE_ERROR\<rparr>)
       else (True, ctx\<lparr>has_seen_profile := True, current_property := None,
               profile_collection :=
                 fst (s_profile_collection_add_profile (profile_collection ctx) nm hp),
               current_profile :=
                 snd (s_profile_collection_add_profile (profile_collection ctx) nm hp)\<rparr>))"
    unfolding s_parse_profile_declaration_def Let_def parse_by_character_predicate_eq
      s_trim_trailing_comment_def prod.case fst_conv snd_conv
      pc_def [symmetric] bt_def [symmetric] tr_def [symmetric]
    unfolding hp_def [symmetric]
    unfolding c2_def [symmetric]
    unfolding nm_def [symmetric] c4_def [symmetric]
    by (simp add: case_prod_beta del: dropWhile_eq_Nil_conv takeWhile_eq_Nil_iff)
  show ?thesis
    unfolding dcl cls apply_declaration_def
    by (simp del: dropWhile_eq_Nil_conv takeWhile_eq_Nil_iff)
qed

lemma declaration_not_taken:
  "\<not> fst (s_parse_profile_declaration l ctx) \<Longrightarrow>
   s_parse_profile_declaration l ctx = (False, ctx)"
  by (cases "classify_declaration (profile_source (profile_collection ctx)) l")
     (simp_all add: declaration_normal_form apply_declaration_def)

lemma declaration_taken:
  "fst (s_parse_profile_declaration l ctx) \<Longrightarrow>
   has_seen_profile (snd (s_parse_profile_declaration l ctx)) \<and>
   current_property (snd (s_parse_profile_declaration l ctx)) = None"
  by (cases "classify_declaration (profile_source (profile_collection ctx)) l")
     (simp_all add: declaration_normal_form apply_declaration_def)

lemma declaration_current_no_error:
  "current_profile (snd (s_parse_profile_declaration l ctx)) \<noteq> None \<Longrightarrow>
   fst (s_parse_profile_declaration l ctx) \<Longrightarrow>
   parse_error (snd (s_parse_profile_declaration l ctx)) = parse_error ctx"
  by (cases "classify_declaration (profile_source (profile_collection ctx)) l")
     (simp_all add: declaration_normal_form apply_declaration_def)

lemma declaration_rejected:
  "parse_error (snd (s_parse_profile_declaration l (ctx\<lparr>parse_error := PARSE_NO_ERROR\<rparr>)))
     \<noteq> PARSE_NO_ERROR \<Longrightarrow>
   current_profile (snd (s_parse_profile_declaration l ctx)) = None \<and>
   profile_collection (snd (s_parse_profile_declaration l ctx)) = profile_collection ctx"
  by (cases "classify_declaration (profile_source (profile_collection ctx)) l")
     (simp_all add: declaration_normal_form apply_declaration_def)

lemma update_profile_fields [simp]:
  "has_seen_profile (context_update_profile f context) = has_seen_profile context"
  "current_profile (context_update_profile f context) = current_profile context"
  "current_property (context_update_profile f context) = current_property context"
  "parse_error (context_update_profile f context) = parse_error context"
  by (simp_all add: context_update_profile_def split: option.splits)

lemma update_property_fields [simp]:
  "has_seen_profile (context_update_property f context) = has_seen_profile context"
  "current_profile (context_update_property f context) = current_profile context"
  "current_property (context_update_property f context) = current_property context"
  "parse_error (context_update_property f context) = parse_error context"
  by (simp_all add: context_update_property_def split: option.splits)

lemma continuation_keeps:
  "has_seen_profile (snd (s_parse_property_continuation l context)) = has_seen_profile context \<and>
   current_profile (snd (s_parse_property_continuation l context)) = current_profile context \<and>
   current_property (snd (s_parse_property_continuation l context)) = current_property context"
  by (simp add: s_parse_property_continuation_def Let_def parse_by_character_predicate_eq
      split: prod.splits option.splits)

lemma property_keeps:
  "has_seen_profile (snd (s_parse_property l context)) = has_seen_profile context \<and>
   current_profile (snd (s_parse_property l context)) = current_profile context"
  by (simp add: s_parse_property_def Let_def parse_by_character_predicate_eq
      split: prod.splits option.splits)

lemma takeWhile_hd: "takeWhile p xs \<noteq> [] \<Longrightarrow> xs \<noteq> [] \<and> p (hd xs)"
  by (cases xs) (auto split: if_splits)

lemma declaration_needs_bracket:
  assumes "l = [] \<or> hd l \<noteq> CHR ''[''"
  shows "s_parse_profile_declaration l context = (False, context)"
proof -
  let ?t = "takeWhile s_is_not_comment_token l"
  let ?pc = "aws_byte_cursor_right_trim_pred ?t s_is_whitespace"
  obtain r1 where r1: "?t = ?pc @ r1"
    using right_trim_prefix by blast
  have l: "l = ?t @ dropWhile s_is_not_comment_token l" by simp
  have "takeWhile s_is_profile_start ?pc = []"
  proof (rule ccontr)
    assume "takeWhile s_is_profile_start ?pc \<noteq> []"
    then have "?pc \<noteq> []" and "hd ?pc = CHR ''[''"
      using takeWhile_hd [of s_is_profile_start ?pc] by (auto simp: s_is_profile_start_def)
    with r1 have "?t \<noteq> [] \<and> hd ?t = CHR ''[''" by (metis Nil_is_append_conv hd_append2)
    with l have "l \<noteq> [] \<and> hd l = CHR ''[''" by (metis hd_append2 takeWhile.simps(1))
    with assms show False by simp
  qed
  then show ?thesis
    by (simp add: s_parse_profile_declaration_def Let_def parse_by_character_predicate_eq
        s_trim_trailing_comment_def)
qed

lemma declaration_line_taken:
  "fst (s_parse_profile_declaration (CHR ''['' # r) context)"
proof -
  have "takeWhile s_is_not_comment_token (CHR ''['' # r) = CHR ''['' # takeWhile s_is_not_comment_token r"
    by (simp add: s_is_not_comment_token_def s_is_comment_token_def)
  moreover have "aws_byte_cursor_right_trim_pred (CHR ''['' # takeWhile s_is_not_comment_token r) s_is_whitespace
      = CHR ''['' # aws_byte_cursor_right_trim_pred (takeWhile s_is_not_comment_token r) s_is_whitespace"
    using right_trim_Cons_keep [of s_is_whitespace "CHR ''[''" "[]"]
    by (simp add: s_is_whitespace_def)
  ultimately show ?thesis
    by (simp add: s_parse_profile_declaration_def Let_def parse_by_character_predicate_eq
        s_trim_trailing_comment_def s_is_profile_start_def split: prod.splits)
qed

lemma right_trim_hd:
  "l \<noteq> [] \<Longrightarrow> aws_byte_cursor_right_trim_pred l p \<noteq> [] \<Longrightarrow>
   hd (aws_byte_cursor_right_trim_pred l p) = hd l"
  using right_trim_prefix [of l p] by (metis hd_append2)

lemma apply_declaration_line:
  "s_parse_and_apply_line_to_profile_collection context (CHR ''['' # r) =
   snd (s_parse_profile_declaration
          (CHR ''['' # aws_byte_cursor_right_trim_pred r s_is_carriage_return) context)"
proof -
  have line1: "aws_byte_cursor_right_trim_pred (CHR ''['' # r) s_is_carriage_return
      = CHR ''['' # aws_byte_cursor_right_trim_pred r s_is_carriage_return"
    using right_trim_Cons_keep [of s_is_carriage_return "CHR ''[''" "[]" r]
    by (simp add: s_is_carriage_return_def)
  let ?d = "s_parse_profile_declaration
      (CHR ''['' # aws_byte_cursor_right_trim_pred r s_is_carriage_return) context"
  have d: "?d = (True, snd ?d)"
    using declaration_line_taken [of "aws_byte_cursor_right_trim_pred r s_is_carriage_return" "context"]
    by (cases ?d) simp
  have "\<not> (length (CHR ''['' # aws_byte_cursor_right_trim_pred r s_is_carriage_return) = 0 \<or>
      s_is_comment_line (CHR ''['' # aws_byte_cursor_right_trim_pred r s_is_carriage_return) \<or>
      s_is_whitespace_line (CHR ''['' # aws_byte_cursor_right_trim_pred r s_is_carriage_return))"
    by (simp add: s_is_comment_line_def s_is_whitespace_line_def
        aws_byte_cursor_left_trim_pred_def s_is_whitespace_def)
  then show ?thesis
    unfolding s_parse_and_apply_line_to_profile_collection_def Let_def line1
    by (subst d) (simp del: length_0_conv)
qed

lemma apply_line_unfold:
  "s_parse_and_apply_line_to_profile_collection context l =
     (let line = aws_byte_cursor_right_trim_pred l s_is_carriage_return;
          d = s_parse_profile_declaration line context;
          c = s_parse_property_continuation line (snd d);
          p = s_parse_property line (snd c)
      in if length line = 0 \<or> s_is_comment_line line \<or> s_is_whitespace_line line then context
         else if fst d then snd d
         else if fst c then snd c
         else if fst p then snd p
         else (snd p)\<lparr>parse_error := AWS_AUTH_PROFILE_PARSE_FATAL_ERROR\<rparr>)"
  by (simp add: s_parse_and_apply_line_to_profile_collection_def Let_def split: prod.splits)

lemma apply_other_line_keeps:
  assumes "l = [] \<or> hd l \<noteq> CHR ''[''"
  shows "has_seen_profile (s_parse_and_apply_line_to_profile_collection context l)
           = has_seen_profile context \<and>
         current_profile (s_parse_and_apply_line_to_profile_collection context l)
           = current_profile context"
proof -
  let ?l1 = "aws_byte_cursor_right_trim_pred l s_is_carriage_return"
  have "?l1 = [] \<or> hd ?l1 \<noteq> CHR ''[''"
  proof (cases "?l1 = []")
    case True
    then show ?thesis by simp
  next
    case False
    then have "l \<noteq> []" by (auto simp: aws_byte_cursor_right_trim_pred_def)
    with False assms right_trim_hd [of l s_is_carriage_return] show ?thesis by simp
  qed
  from declaration_needs_bracket [OF this]
  show ?thesis
    using continuation_keeps [of ?l1 "context"]
      property_keeps [of ?l1 "snd (s_parse_property_continuation ?l1 context)"]
    by (simp add: apply_line_unfold Let_def del: length_0_conv)
qed

lemma parse_lines_append:
  "s_parse_lines ctx (before @ after) =
   (case s_parse_lines ctx before of None \<Rightarrow> None | Some c \<Rightarrow> s_parse_lines c after)"
  by (induction before arbitrary: ctx) (simp_all add: Let_def)

lemma parse_lines_no_declaration:
  "\<forall>l\<in>set before. l = [] \<or> hd l \<noteq> CHR ''['' \<Longrightarrow>
   s_parse_lines ctx before = Some c \<Longrightarrow>
   has_seen_profile c = has_seen_profile ctx \<and> current_profile c = current_profile ctx"
proof (induction before arbitrary: ctx)
  case Nil
  then show ?case by simp
next
  case (Cons l ls)
  let ?c1 = "s_parse_and_apply_line_to_profile_collection ctx l"
  from Cons.prems have "s_parse_lines ?c1 ls = Some c"
    by (simp add: Let_def split: if_splits)
  moreover from Cons.prems have "\<forall>l\<in>set ls. l = [] \<or> hd l \<noteq> CHR ''[''" by simp
  ultimately have "has_seen_profile c = has_seen_profile ?c1 \<and> current_profile c = current_profile ?c1"
    using Cons.IH by blast
  moreover from Cons.prems have "l = [] \<or> hd l \<noteq> CHR ''[''" by simp
  ultimately show ?case
    using apply_other_line_keeps [of l ctx] by simp
qed

lemma apply_continuation_line_outside:
  assumes ws: "ws \<noteq> []" "list_all s_is_whitespace ws" and x: "\<not> s_is_whitespace x"
    and outside: "current_profile context = None \<or> current_property context = None"
  shows "s_parse_and_apply_line_to_profile_collection context (ws @ x # r) =
         context\<lparr>parse_error := AWS_AUTH_PROFILE_PARSE_FATAL_ERROR\<rparr>"
proof -
  let ?r1 = "aws_byte_cursor_right_trim_pred r s_is_carriage_return"
  let ?l1 = "ws @ x # ?r1"
  from ws obtain w ws' where w: "ws = w # ws'" "s_is_whitespace w"
    by (cases ws) auto
  have xcr: "\<not> s_is_carriage_return x"
    using x by (auto simp: s_is_carriage_return_def s_is_whitespace_def)
  have line1: "aws_byte_cursor_right_trim_pred (ws @ x # r) s_is_carriage_return = ?l1"
    using right_trim_Cons_keep [of s_is_carriage_return x ws r] xcr by simp
  have not_skipped: "\<not> (length ?l1 = 0 \<or> s_is_comment_line ?l1 \<or> s_is_whitespace_line ?l1)"
    using w x whitespace_not_special [OF w(2)] ws(2)
    by (simp add: s_is_comment_line_def s_is_whitespace_line_def
        aws_byte_cursor_left_trim_pred_def s_is_comment_token_def dropWhile_all)
  have "?l1 = [] \<or> hd ?l1 \<noteq> CHR ''[''"
    using w whitespace_not_special [OF w(2)] by (auto simp: s_is_profile_start_def)
  note nd = declaration_needs_bracket [OF this]
  have rt: "aws_byte_cursor_right_trim_pred ?l1 s_is_whitespace
      = ws @ x # aws_byte_cursor_right_trim_pred ?r1 s_is_whitespace"
    using right_trim_Cons_keep [of s_is_whitespace x ws ?r1] x by simp
  have cont: "s_parse_property_continuation ?l1 context
      = (True, context\<lparr>parse_error := AWS_AUTH_PROFILE_PARSE_FATAL_ERROR\<rparr>)"
    unfolding s_parse_property_continuation_def Let_def rt parse_by_character_predicate_eq
    using ws x outside by (simp add: takeWhile_all dropWhile_all)
  show ?thesis
    unfolding apply_line_unfold Let_def line1
    using not_skipped by (simp add: nd cont del: length_0_conv)
qed

lemma property_line_outside:
  "current_profile context = None \<Longrightarrow>
   property_line_context key val context =
     context\<lparr>current_property := None,
              parse_error := (if has_seen_profile context
                              then AWS_AUTH_PROFILE_PARSE_RECOVERABLE_ERROR
                              else AWS_AUTH_PROFILE_PARSE_FATAL_ERROR)\<rparr>"
  by (simp add: property_line_context_def)

text \<open>
  C4. Let the lines of a buffer be \<open>before\<close>, then a property-definition line, then
  \<open>after\<close>. If no line of \<open>before\<close> starts a profile declaration (none begins with
  \<open>[\<close>), the parse returns no collection. If the lines of \<open>before\<close> were parsed without
  a fatal error, a profile declaration has been seen among them and there is no current
  profile, the line only sets the recoverable error: it is skipped, the collection is the
  one before the line, and the parse goes on with the lines of \<open>after\<close>.
\<close>

theorem property_line_outside_profile:
  assumes key: "is_property_key key" and ws: "list_all s_is_whitespace ws"
    and line: "line = key @ ws @ CHR ''='' # rest"
  shows "(split_on_char (CHR 0x0A) buffer = before @ line # after \<and>
          (\<forall>l\<in>set before. l = [] \<or> hd l \<noteq> CHR ''['')
          \<longrightarrow> aws_profile_collection_new_from_buffer buffer source = None) \<and>
         (s_parse_lines (s_initial_context source) before = Some ctx \<and>
          has_seen_profile ctx \<and> current_profile ctx = None
          \<longrightarrow> s_parse_and_apply_line_to_profile_collection ctx line
                = ctx\<lparr>current_property := None,
                           parse_error := AWS_AUTH_PROFILE_PARSE_RECOVERABLE_ERROR\<rparr> \<and>
              s_parse_lines (s_initial_context source) (before @ line # after)
                = s_parse_lines
                    (ctx\<lparr>current_property := None,
                             parse_error := AWS_AUTH_PROFILE_PARSE_RECOVERABLE_ERROR\<rparr>) after)"
proof (intro conjI impI)
  assume a: "split_on_char (CHR 0x0A) buffer = before @ line # after \<and>
      (\<forall>l\<in>set before. l = [] \<or> hd l \<noteq> CHR ''['')"
  show "aws_profile_collection_new_from_buffer buffer source = None"
  proof (cases "s_parse_lines (s_initial_context source) before")
    case None
    with a show ?thesis
      by (simp add: aws_profile_collection_new_from_buffer_def
          s_aws_profile_collection_new_internal_def parse_lines_append)
  next
    case (Some c)
    with a parse_lines_no_declaration [of before "s_initial_context source" c]
    have c: "\<not> has_seen_profile c" "current_profile c = None"
      by (simp_all add: s_initial_context_def)
    have "s_parse_and_apply_line_to_profile_collection c line =
        c\<lparr>current_property := None, parse_error := AWS_AUTH_PROFILE_PARSE_FATAL_ERROR\<rparr>"
      using apply_property_line [OF key ws, of c rest] c line
      by (simp add: property_line_outside)
    with a Some show ?thesis
      by (simp add: aws_profile_collection_new_from_buffer_def
          s_aws_profile_collection_new_internal_def parse_lines_append Let_def)
  qed
next
  assume b: "s_parse_lines (s_initial_context source) before = Some ctx \<and>
      has_seen_profile ctx \<and> current_profile ctx = None"
  show step: "s_parse_and_apply_line_to_profile_collection ctx line =
      ctx\<lparr>current_property := None, parse_error := AWS_AUTH_PROFILE_PARSE_RECOVERABLE_ERROR\<rparr>"
    using apply_property_line [OF key ws, of ctx rest] b line
    by (simp add: property_line_outside)
  from b show "s_parse_lines (s_initial_context source) (before @ line # after)
      = s_parse_lines (ctx\<lparr>current_property := None,
           parse_error := AWS_AUTH_PROFILE_PARSE_RECOVERABLE_ERROR\<rparr>) after"
    by (simp add: parse_lines_append step Let_def)
qed

lemmas char_class_defs =
  s_is_assignment_operator_def s_is_not_assignment_operator_def s_is_identifier_def
  s_is_whitespace_def s_is_comment_token_def s_is_not_comment_token_def
  s_is_profile_start_def s_is_not_profile_end_def s_is_carriage_return_def

lemmas parse_eval =
  char_class_defs s_is_comment_line_def s_is_whitespace_line_def s_default_profile_name_def
  s_is_default_profile_name_def parse_by_character_predicate_eq s_parse_by_token_def
  s_profile_token_def s_trim_trailing_comment_def
  aws_byte_cursor_right_trim_pred_def aws_byte_cursor_left_trim_pred_def
  aws_byte_cursor_trim_pred_def
  context_current_profile_def context_current_property_def context_update_profile_def
  context_update_property_def s_profile_property_add_continuation_def
  s_profile_property_add_sub_property_def s_profile_add_property_def
  s_profile_collection_add_profile_def s_parse_profile_declaration_def
  s_parse_property_continuation_def s_parse_property_def
  s_parse_and_apply_line_to_profile_collection_def s_initial_context_def
  s_aws_profile_collection_new_internal_def aws_profile_collection_new_from_buffer_def
  aws_hash_table_find_def aws_hash_table_put_def aws_hash_table_remove_def
  aws_profile_new_def aws_profile_property_new_def is_property_key_def Let_def

theorem property_line_outside_profile_witness:
  "aws_profile_collection_new_from_buffer (''a = b'' @ [CHR 0x0A] @ ''[foo]'')
     AWS_PST_CREDENTIALS = None \<and>
   s_parse_lines (s_initial_context AWS_PST_CREDENTIALS) [''[profile foo]'', ''a = b'', ''[bar]'']
   = Some \<lparr>profile_collection =
        \<lparr>profile_source = AWS_PST_CREDENTIALS,
         profiles = [(''bar'', aws_profile_new ''bar'' False)]\<rparr>,
      current_profile = Some ''bar'', current_property = None,
      parse_error = AWS_AUTH_PROFILE_PARSE_RECOVERABLE_ERROR, has_seen_profile = True\<rparr>"
  using property_line_outside_profile [where key = "''a''" and ws = "'' ''"
      and line = "''a = b''" and rest = "'' b''"
      and buffer = "''a = b'' @ [CHR 0x0A] @ ''[foo]''" and before = "[]"
      and after = "[''[foo]'']" and source = AWS_PST_CREDENTIALS]
    property_line_outside_profile [where key = "''a''" and ws = "'' ''"
      and line = "''a = b''" and rest = "'' b''"
      and before = "[''[profile foo]'']" and after = "[''[bar]'']"
      and source = AWS_PST_CREDENTIALS
      and ctx = "\<lparr>profile_collection = \<lparr>profile_source = AWS_PST_CREDENTIALS, profiles = []\<rparr>,
        current_profile = None, current_property = None,
        parse_error = AWS_AUTH_PROFILE_PARSE_RECOVERABLE_ERROR, has_seen_profile = True\<rparr>"]
  by (simp add: parse_eval)

text \<open>
  C10. A line that begins with \<open>[\<close> sets the has-seen-profile flag and clears the
  current property whatever becomes of the declaration, and it leaves a current profile
  only when it raises no error. When the line is rejected (it raises an error, seen by
  running it with the error field cleared), there is no current profile and the
  collection is as before; a property-definition line that follows is skipped with the
  recoverable error and changes nothing else, so it is not attached to the profile that
  was current before the rejected line; an indented continuation line that follows sets
  the fatal error.
\<close>

theorem declaration_line_resets_context:
  assumes line: "line = CHR ''['' # r"
    and after: "context1 = s_parse_and_apply_line_to_profile_collection ctx line"
  shows "has_seen_profile context1 \<and> current_property context1 = None \<and>
         (current_profile context1 \<noteq> None \<longrightarrow> parse_error context1 = parse_error ctx) \<and>
         (parse_error (s_parse_and_apply_line_to_profile_collection
                         (ctx\<lparr>parse_error := PARSE_NO_ERROR\<rparr>) line) \<noteq> PARSE_NO_ERROR
          \<longrightarrow> current_profile context1 = None \<and>
              profile_collection context1 = profile_collection ctx \<and>
              (is_property_key key \<and> list_all s_is_whitespace ws
               \<longrightarrow> s_parse_and_apply_line_to_profile_collection context1
                     (key @ ws @ CHR ''='' # rest)
                   = context1\<lparr>parse_error := AWS_AUTH_PROFILE_PARSE_RECOVERABLE_ERROR\<rparr>) \<and>
              (indent \<noteq> [] \<and> list_all s_is_whitespace indent \<and> \<not> s_is_whitespace x
               \<longrightarrow> s_parse_and_apply_line_to_profile_collection context1 (indent @ x # tail)
                   = context1\<lparr>parse_error := AWS_AUTH_PROFILE_PARSE_FATAL_ERROR\<rparr>))"
proof -
  let ?l1 = "CHR ''['' # aws_byte_cursor_right_trim_pred r s_is_carriage_return"
  have c1: "context1 = snd (s_parse_profile_declaration ?l1 ctx)"
    using line after by (simp add: apply_declaration_line)
  have taken: "fst (s_parse_profile_declaration ?l1 ctx)"
    by (rule declaration_line_taken)
  have seen: "has_seen_profile context1" and noprop: "current_property context1 = None"
    using declaration_taken [OF taken] c1 by simp_all
  have noerr: "current_profile context1 \<noteq> None \<longrightarrow> parse_error context1 = parse_error ctx"
    using declaration_current_no_error [of ?l1 ctx] taken c1 by simp
  have rejected: "current_profile context1 = None \<and>
      profile_collection context1 = profile_collection ctx"
    if "parse_error (s_parse_and_apply_line_to_profile_collection
          (ctx\<lparr>parse_error := PARSE_NO_ERROR\<rparr>) line) \<noteq> PARSE_NO_ERROR"
    using that declaration_rejected [of ?l1 ctx] c1 line
    by (simp add: apply_declaration_line)
  have pl: "s_parse_and_apply_line_to_profile_collection context1 (key @ ws @ CHR ''='' # rest)
      = context1\<lparr>parse_error := AWS_AUTH_PROFILE_PARSE_RECOVERABLE_ERROR\<rparr>"
    if "current_profile context1 = None" "is_property_key key \<and> list_all s_is_whitespace ws"
    using that seen noprop apply_property_line [of key ws context1 rest]
    by (simp add: property_line_outside)
  have cl: "s_parse_and_apply_line_to_profile_collection context1 (indent @ x # tail)
      = context1\<lparr>parse_error := AWS_AUTH_PROFILE_PARSE_FATAL_ERROR\<rparr>"
    if "indent \<noteq> [] \<and> list_all s_is_whitespace indent \<and> \<not> s_is_whitespace x"
    using that noprop apply_continuation_line_outside [of indent x context1 tail] by simp
  from seen noprop noerr rejected pl cl show ?thesis by blast
qed

theorem declaration_line_resets_context_witness:
  "has_seen_profile (s_parse_and_apply_line_to_profile_collection example_context ''[profile bar]'') \<and>
   current_profile (s_parse_and_apply_line_to_profile_collection example_context ''[profile bar]'')
     = None \<and>
   profile_collection
     (s_parse_and_apply_line_to_profile_collection
        (s_parse_and_apply_line_to_profile_collection example_context ''[profile bar]'') ''a = b'')
     = profile_collection example_context \<and>
   parse_error
     (s_parse_and_apply_line_to_profile_collection
        (s_parse_and_apply_line_to_profile_collection example_context ''[profile bar]'') ''  x'')
     = AWS_AUTH_PROFILE_PARSE_FATAL_ERROR"
  using declaration_line_resets_context [of "''[profile bar]''" "''profile bar]''" _
      example_context "''a''" "'' ''" "'' b''" "''  ''" "CHR ''x''" "[]"]
  by (simp add: parse_eval example_context_def)

lemma current_property_update:
  "context_current_property (context_update_property f ctx)
   = map_option f (context_current_property ctx)"
  by (auto simp: context_current_property_def context_current_profile_def
      context_update_property_def context_update_profile_def aws_hash_table_find_def
      map_of_map_entry split: option.splits)

lemma apply_sub_property_line:
  assumes indent: "indent \<noteq> []" "list_all s_is_whitespace indent"
    and k: "is_property_key k"
    and v: "v \<noteq> []" "\<not> s_is_whitespace (hd v)" "\<not> s_is_whitespace (last v)"
    and current: "current_profile ctx \<noteq> None" "current_property ctx \<noteq> None"
      "context_current_property ctx = Some prop" "is_empty_valued prop"
  shows "s_parse_and_apply_line_to_profile_collection ctx (indent @ k @ '' = '' @ v) =
         context_update_property (\<lambda>p. s_profile_property_add_sub_property p k v)
           (context_update_property
              (\<lambda>p. s_profile_property_add_continuation p (k @ '' = '' @ v)) ctx)"
proof -
  define t where "t = k @ '' = '' @ v"
  define l where "l = indent @ t"
  from indent obtain w ws' where w: "indent = w # ws'" "s_is_whitespace w"
    by (cases indent) auto
  from k obtain k0 ks where k0: "k = k0 # ks" "s_is_identifier k0"
    by (cases k) (auto simp: is_property_key_def)
  from k obtain kl kb where kl: "k = kb @ [kl]" "s_is_identifier kl"
    by (cases k rule: rev_cases) (auto simp: is_property_key_def)
  from v have lastl: "l \<noteq> []" "last l = last v" by (simp_all add: l_def t_def)
  have tne: "t \<noteq> []" by (simp add: t_def)
  have line1: "aws_byte_cursor_right_trim_pred l s_is_carriage_return = l"
    using lastl v(3) by (intro right_trim_id) (simp add: s_is_carriage_return_def s_is_whitespace_def)
  have rt: "aws_byte_cursor_right_trim_pred l s_is_whitespace = l"
    using lastl v(3) by (intro right_trim_id) simp
  have not_skipped: "\<not> (length l = 0 \<or> s_is_comment_line l \<or> s_is_whitespace_line l)"
    using w k0 identifier_not_special [OF k0(2)] whitespace_not_special [OF w(2)] indent(2)
    by (simp add: s_is_comment_line_def s_is_whitespace_line_def l_def t_def
        aws_byte_cursor_left_trim_pred_def s_is_comment_token_def dropWhile_all)
  have "l = [] \<or> hd l \<noteq> CHR ''[''"
    using w whitespace_not_special [OF w(2)] by (auto simp: s_is_profile_start_def l_def)
  note nd = declaration_needs_bracket [OF this]
  have tw: "takeWhile s_is_whitespace l = indent" "dropWhile s_is_whitespace l = t"
    using indent(2) k0 identifier_not_special [OF k0(2)]
    by (simp_all add: takeWhile_all dropWhile_all l_def t_def)
  have kna: "list_all s_is_not_assignment_operator (k @ '' '')"
    using k identifier_not_special
    by (auto simp: is_property_key_def list_all_iff s_is_not_assignment_operator_def
        s_is_assignment_operator_def)
  define key_cursor where "key_cursor = k @ '' ''"
  define cursor2 where "cursor2 = ''= '' @ v"
  have ta: "takeWhile s_is_not_assignment_operator t = key_cursor"
    "dropWhile s_is_not_assignment_operator t = cursor2"
    using takeWhile_all [OF kna, of "CHR ''=''" "'' '' @ v"]
      dropWhile_all [OF kna, of "CHR ''=''" "'' '' @ v"]
    by (simp_all add: s_is_not_assignment_operator_def s_is_assignment_operator_def t_def
        key_cursor_def cursor2_def)
  have trimmed: "aws_byte_cursor_right_trim_pred key_cursor s_is_whitespace = k"
    using right_trim_append_all [of s_is_whitespace "'' ''" k]
      right_trim_id [of k s_is_whitespace] identifier_not_special [OF kl(2)] kl(1)
    by (simp add: s_is_whitespace_def key_cursor_def)
  have idc: "aws_byte_cursor_trim_pred k s_is_identifier = []"
    using k by (simp add: aws_byte_cursor_trim_pred_def aws_byte_cursor_left_trim_pred_def
        aws_byte_cursor_right_trim_pred_def dropWhile_all_nil is_property_key_def)
  have val: "dropWhile s_is_whitespace (dropWhile s_is_assignment_operator cursor2) = v"
    "takeWhile s_is_assignment_operator cursor2 \<noteq> []"
    using v by (cases v; simp add: s_is_assignment_operator_def s_is_whitespace_def cursor2_def)+
  have kne: "key_cursor \<noteq> []" by (simp add: key_cursor_def)
  have cont: "s_parse_property_continuation l ctx =
      (True, context_update_property (\<lambda>p. s_profile_property_add_sub_property p k v)
           (context_update_property (\<lambda>p. s_profile_property_add_continuation p t) ctx))"
    using indent(1) current kne tne
    by (auto simp: s_parse_property_continuation_def Let_def rt parse_by_character_predicate_eq
        tw ta trimmed idc val)
  have "s_parse_and_apply_line_to_profile_collection ctx l =
      context_update_property (\<lambda>p. s_profile_property_add_sub_property p k v)
           (context_update_property (\<lambda>p. s_profile_property_add_continuation p t) ctx)"
    unfolding apply_line_unfold Let_def line1
    using not_skipped by (simp add: nd cont)
  then show ?thesis
    by (simp add: l_def t_def)
qed

lemma property_line_value_empty: "property_line_value [] = []"
  by (simp add: property_line_value_def aws_byte_cursor_right_trim_pred_def)

lemma property_line_context_current:
  "current_profile ctx = Some pk \<Longrightarrow>
   current_profile (property_line_context key val ctx) = Some pk \<and>
   current_property (property_line_context key val ctx) = Some key \<and>
   parse_error (property_line_context key val ctx) = parse_error ctx"
  by (simp add: property_line_context_def)

definition collection_property ::
    "aws_profile_collection option \<Rightarrow> string \<Rightarrow> string \<Rightarrow> aws_profile_property option" where
  "collection_property collection profile_key property_key =
     (case collection of
        None \<Rightarrow> None
      | Some c \<Rightarrow>
          (case aws_profile_collection_get_profile c profile_key of
             None \<Rightarrow> None
           | Some p \<Rightarrow> aws_profile_get_property p property_key))"

definition example_nested_buffer :: string where
  "example_nested_buffer =
     ''[foo]'' @ [CHR 0x0A] @ ''s3 ='' @ [CHR 0x0A] @ ''  a = 1'' @ [CHR 0x0A] @ ''  b = 2''"

text \<open>
  C3, as stated, fails: every continuation line is appended to the value of the current
  property, after a newline, before the line is read as a sub-property. For the buffer
  \<open>[foo]\<close>, \<open>s3 =\<close>, \<open>  a = 1\<close>, \<open>  b = 2\<close> the value of \<open>s3\<close> is not empty.
\<close>

theorem empty_valued_property_value_counterexample:
  "collection_property
     (aws_profile_collection_new_from_buffer example_nested_buffer AWS_PST_CREDENTIALS)
     ''foo'' ''s3''
   = Some \<lparr>property_name = ''s3'',
            property_value = [CHR 0x0A] @ ''a = 1'' @ [CHR 0x0A] @ ''b = 2'',
            is_empty_valued = True,
            sub_properties = [(''a'', ''1''), (''b'', ''2'')]\<rparr> \<and>
   map_option property_value
     (collection_property
        (aws_profile_collection_new_from_buffer example_nested_buffer AWS_PST_CREDENTIALS)
        ''foo'' ''s3'') \<noteq> Some []"
  by (simp add: parse_eval example_nested_buffer_def collection_property_def
      aws_profile_collection_get_profile_def aws_profile_get_property_def)

text \<open>
  C3, amended. With a current profile, a property definition with an empty value
  (\<open>key =\<close>) followed by two indented lines \<open>k1 = v1\<close> and \<open>k2 = v2\<close> with distinct
  identifier keys (the values neither start nor end with whitespace) yields a property
  whose value is the two lines as written, without their indentation, each after a
  newline; its \<open>is_empty_valued\<close> is true and its sub-properties are exactly the two
  pairs. No error is raised on the way.
\<close>

theorem empty_valued_property_continuations:
  assumes key: "is_property_key key" "list_all s_is_whitespace ws"
    and k1: "is_property_key k1" and k2: "is_property_key k2" and ne: "k1 \<noteq> k2"
    and v1: "v1 \<noteq> []" "\<not> s_is_whitespace (hd v1)" "\<not> s_is_whitespace (last v1)"
    and v2: "v2 \<noteq> []" "\<not> s_is_whitespace (hd v2)" "\<not> s_is_whitespace (last v2)"
    and i1: "indent1 \<noteq> []" "list_all s_is_whitespace indent1"
    and i2: "indent2 \<noteq> []" "list_all s_is_whitespace indent2"
    and current: "current_profile ctx = Some profile_key"
      "aws_hash_table_find (profiles (profile_collection ctx)) profile_key = Some profile"
    and l0: "ctx1 = s_parse_and_apply_line_to_profile_collection ctx (key @ ws @ ''='')"
    and l1: "ctx2 = s_parse_and_apply_line_to_profile_collection ctx1 (indent1 @ k1 @ '' = '' @ v1)"
    and l2: "ctx3 = s_parse_and_apply_line_to_profile_collection ctx2 (indent2 @ k2 @ '' = '' @ v2)"
  shows "context_current_property ctx3
         = Some \<lparr>property_name = key,
                  property_value = [CHR 0x0A] @ k1 @ '' = '' @ v1 @ [CHR 0x0A] @ k2 @ '' = '' @ v2,
                  is_empty_valued = True,
                  sub_properties = [(k1, v1), (k2, v2)]\<rparr> \<and>
         current_profile ctx3 = Some profile_key \<and> parse_error ctx3 = parse_error ctx"
proof -
  let ?p0 = "aws_profile_property_new key []"
  let ?t1 = "k1 @ '' = '' @ v1"
  let ?t2 = "k2 @ '' = '' @ v2"
  let ?p1 = "s_profile_property_add_sub_property (s_profile_property_add_continuation ?p0 ?t1) k1 v1"
  let ?p2 = "s_profile_property_add_sub_property (s_profile_property_add_continuation ?p1 ?t2) k2 v2"
  have c1: "ctx1 = property_line_context key [] ctx"
    using apply_property_line [OF key, of ctx "[]"] l0 by (simp add: property_line_value_empty)
  have p0: "context_current_property ctx1 = Some ?p0"
    using current_property_after_property_line [OF current] c1 by simp
  have f1: "current_profile ctx1 = Some profile_key" "current_property ctx1 = Some key"
    "parse_error ctx1 = parse_error ctx"
    using property_line_context_current [OF current(1)] c1 by simp_all
  have e0: "is_empty_valued ?p0" by (simp add: aws_profile_property_new_def)
  have c2: "ctx2 = context_update_property (\<lambda>p. s_profile_property_add_sub_property p k1 v1)
      (context_update_property (\<lambda>p. s_profile_property_add_continuation p ?t1) ctx1)"
    using apply_sub_property_line [OF i1 k1 v1 _ _ p0 e0] f1 l1 by simp
  have p1: "context_current_property ctx2 = Some ?p1"
    using c2 p0 by (simp add: current_property_update)
  have f2: "current_profile ctx2 = Some profile_key" "current_property ctx2 = Some key"
    "parse_error ctx2 = parse_error ctx"
    using c2 f1 by simp_all
  have e1: "is_empty_valued ?p1"
    by (simp add: aws_profile_property_new_def s_profile_property_add_sub_property_def
        s_profile_property_add_continuation_def)
  have c3: "ctx3 = context_update_property (\<lambda>p. s_profile_property_add_sub_property p k2 v2)
      (context_update_property (\<lambda>p. s_profile_property_add_continuation p ?t2) ctx2)"
    using apply_sub_property_line [OF i2 k2 v2 _ _ p1 e1] f2 l2 by simp
  have p2: "context_current_property ctx3 = Some ?p2"
    using c3 p1 by (simp add: current_property_update)
  have "?p2 = \<lparr>property_name = key,
                  property_value = [CHR 0x0A] @ k1 @ '' = '' @ v1 @ [CHR 0x0A] @ k2 @ '' = '' @ v2,
                  is_empty_valued = True,
                  sub_properties = [(k1, v1), (k2, v2)]\<rparr>"
    using ne
    by (simp add: aws_profile_property_new_def s_profile_property_add_sub_property_def
        s_profile_property_add_continuation_def aws_hash_table_put_def aws_hash_table_remove_def)
  with p2 c3 f2 show ?thesis by simp
qed

theorem empty_valued_property_continuations_witness:
  "context_current_property
     (s_parse_and_apply_line_to_profile_collection
        (s_parse_and_apply_line_to_profile_collection
           (s_parse_and_apply_line_to_profile_collection example_context ''s3 ='')
           ''  a = 1'')
        ''  b = 2'')
   = Some \<lparr>property_name = ''s3'',
            property_value = [CHR 0x0A] @ ''a = 1'' @ [CHR 0x0A] @ ''b = 2'',
            is_empty_valued = True,
            sub_properties = [(''a'', ''1''), (''b'', ''2'')]\<rparr>"
  using empty_valued_property_continuations [where key = "''s3''" and ws = "'' ''"
      and ?k1.0 = "''a''" and ?k2.0 = "''b''" and ?v1.0 = "''1''" and ?v2.0 = "''2''"
      and ?indent1.0 = "''  ''" and ?indent2.0 = "''  ''" and ctx = example_context
      and profile_key = "''foo''" and profile = "aws_profile_new ''foo'' False", OF _ _ _ _ _ _ _ _ _ _ _ _ _ _ _ _ _ refl refl refl]
  by (simp add: is_property_key_def char_class_defs example_context_def aws_hash_table_find_def)

subsection \<open>The error field is written, never read\<close>

text \<open>
  Two contexts are the same but for the error when they agree on every other field; they
  have the same fatality when either both or none hold the fatal error.
\<close>

definition same_but_error :: "profile_file_parse_context \<Rightarrow> profile_file_parse_context \<Rightarrow> bool" where
  "same_but_error c c' =
     (profile_collection c = profile_collection c' \<and> current_profile c = current_profile c' \<and>
      current_property c = current_property c' \<and> has_seen_profile c = has_seen_profile c')"

definition same_fatality :: "profile_file_parse_context \<Rightarrow> profile_file_parse_context \<Rightarrow> bool" where
  "same_fatality c c' =
     ((parse_error c = AWS_AUTH_PROFILE_PARSE_FATAL_ERROR) =
      (parse_error c' = AWS_AUTH_PROFILE_PARSE_FATAL_ERROR))"

lemma same_but_error_update:
  fixes c c' :: profile_file_parse_context
  shows "same_but_error c c' \<Longrightarrow> c' = c\<lparr>parse_error := parse_error c'\<rparr>"
  by (cases c; cases c') (simp add: same_but_error_def)

lemma update_profile_collection:
  "profile_collection (context_update_profile f c) =
     (case current_profile c of
        None \<Rightarrow> profile_collection c
      | Some pk \<Rightarrow> (profile_collection c)\<lparr>profiles :=
          AList.map_entry pk f (profiles (profile_collection c))\<rparr>)"
  by (simp add: context_update_profile_def split: option.splits)

lemma update_property_collection:
  "profile_collection (context_update_property f c) =
     (case current_property c of
        None \<Rightarrow> profile_collection c
      | Some k \<Rightarrow>
          (case current_profile c of
             None \<Rightarrow> profile_collection c
           | Some pk \<Rightarrow> (profile_collection c)\<lparr>profiles :=
               AList.map_entry pk
                 (\<lambda>profile. profile\<lparr>properties := AList.map_entry k f (properties profile)\<rparr>)
                 (profiles (profile_collection c))\<rparr>))"
  by (simp add: context_update_property_def update_profile_collection split: option.splits)

lemma current_property_fields:
  "context_current_property c =
     (case current_profile c of
        None \<Rightarrow> None
      | Some pk \<Rightarrow>
          (case map_of (profiles (profile_collection c)) pk of
             None \<Rightarrow> None
           | Some p \<Rightarrow>
               (case current_property c of None \<Rightarrow> None | Some k \<Rightarrow> map_of (properties p) k)))"
  by (simp add: context_current_property_def context_current_profile_def aws_hash_table_find_def
      split: option.splits)

lemmas context_field_simps =
  update_profile_collection update_property_collection current_property_fields

lemma declaration_cong:
  assumes "profile_collection c = profile_collection c'"
    and "parse_error c \<noteq> AWS_AUTH_PROFILE_PARSE_FATAL_ERROR"
    and "parse_error c' \<noteq> AWS_AUTH_PROFILE_PARSE_FATAL_ERROR"
  shows "fst (s_parse_profile_declaration l c') = fst (s_parse_profile_declaration l c) \<and>
         (fst (s_parse_profile_declaration l c) \<longrightarrow>
          same_but_error (snd (s_parse_profile_declaration l c))
            (snd (s_parse_profile_declaration l c')) \<and>
          same_fatality (snd (s_parse_profile_declaration l c))
            (snd (s_parse_profile_declaration l c')))"
  using assms
  by (cases "classify_declaration (profile_source (profile_collection c)) l")
     (simp_all add: declaration_normal_form apply_declaration_def same_but_error_def
        same_fatality_def)

lemma continuation_error_update:
  assumes "e \<noteq> AWS_AUTH_PROFILE_PARSE_FATAL_ERROR"
    and "parse_error c \<noteq> AWS_AUTH_PROFILE_PARSE_FATAL_ERROR"
  shows "fst (s_parse_property_continuation l (c\<lparr>parse_error := e\<rparr>))
         = fst (s_parse_property_continuation l c) \<and>
         same_but_error (snd (s_parse_property_continuation l c))
            (snd (s_parse_property_continuation l (c\<lparr>parse_error := e\<rparr>))) \<and>
         same_fatality (snd (s_parse_property_continuation l c))
            (snd (s_parse_property_continuation l (c\<lparr>parse_error := e\<rparr>)))"
  using assms
  by (simp add: s_parse_property_continuation_def Let_def parse_by_character_predicate_eq
      same_but_error_def same_fatality_def context_field_simps split: prod.splits option.splits)

lemma property_error_update:
  assumes "e \<noteq> AWS_AUTH_PROFILE_PARSE_FATAL_ERROR"
    and "parse_error c \<noteq> AWS_AUTH_PROFILE_PARSE_FATAL_ERROR"
  shows "fst (s_parse_property l (c\<lparr>parse_error := e\<rparr>)) = fst (s_parse_property l c) \<and>
         same_but_error (snd (s_parse_property l c))
            (snd (s_parse_property l (c\<lparr>parse_error := e\<rparr>))) \<and>
         same_fatality (snd (s_parse_property l c))
            (snd (s_parse_property l (c\<lparr>parse_error := e\<rparr>)))"
  using assms
  by (simp add: s_parse_property_def Let_def parse_by_character_predicate_eq
      same_but_error_def same_fatality_def context_field_simps split: prod.splits option.splits)

lemma continuation_not_taken:
  "\<not> fst (s_parse_property_continuation l c) \<Longrightarrow> s_parse_property_continuation l c = (False, c)"
  by (simp add: s_parse_property_continuation_def Let_def parse_by_character_predicate_eq
      split: prod.splits option.splits if_splits)

lemma property_always_taken: "fst (s_parse_property l c)"
  by (simp add: s_parse_property_def Let_def parse_by_character_predicate_eq
      split: prod.splits)

lemma apply_line_cong:
  assumes sbe: "same_but_error c c'"
    and nf: "parse_error c \<noteq> AWS_AUTH_PROFILE_PARSE_FATAL_ERROR"
      "parse_error c' \<noteq> AWS_AUTH_PROFILE_PARSE_FATAL_ERROR"
  shows "same_but_error (s_parse_and_apply_line_to_profile_collection c l)
           (s_parse_and_apply_line_to_profile_collection c' l) \<and>
         same_fatality (s_parse_and_apply_line_to_profile_collection c l)
           (s_parse_and_apply_line_to_profile_collection c' l)"
proof -
  let ?line = "aws_byte_cursor_right_trim_pred l s_is_carriage_return"
  from sbe have coll: "profile_collection c = profile_collection c'"
    by (simp add: same_but_error_def)
  from sbe have c': "c' = c\<lparr>parse_error := parse_error c'\<rparr>"
    by (rule same_but_error_update)
  note d = declaration_cong [OF coll nf, of ?line]
  show ?thesis
  proof (cases "length ?line = 0 \<or> s_is_comment_line ?line \<or> s_is_whitespace_line ?line")
    case True
    with sbe nf show ?thesis
      by (simp add: apply_line_unfold Let_def same_fatality_def)
  next
    case skip: False
    show ?thesis
    proof (cases "fst (s_parse_profile_declaration ?line c)")
      case True
      with d skip show ?thesis
        by (simp add: apply_line_unfold Let_def)
    next
      case nd: False
      with d have nd': "\<not> fst (s_parse_profile_declaration ?line c')" by simp
      note dc = declaration_not_taken [OF nd] declaration_not_taken [OF nd']
      note ce = continuation_error_update [OF nf(2) nf(1), of ?line]
      show ?thesis
      proof (cases "fst (s_parse_property_continuation ?line c)")
        case True
        with ce c' skip nd nd' dc show ?thesis
          by (simp add: apply_line_unfold Let_def)
      next
        case nc: False
        with ce c' have nc': "\<not> fst (s_parse_property_continuation ?line c')" by simp
        note cc = continuation_not_taken [OF nc] continuation_not_taken [OF nc']
        from property_error_update [OF nf(2) nf(1), of ?line] c'
        have "same_but_error (snd (s_parse_property ?line c)) (snd (s_parse_property ?line c')) \<and>
            same_fatality (snd (s_parse_property ?line c)) (snd (s_parse_property ?line c'))"
          by simp
        with skip nd nd' nc nc' dc cc show ?thesis
          by (simp add: apply_line_unfold Let_def property_always_taken)
      qed
    qed
  qed
qed

lemma declaration_line_cong:
  assumes "profile_collection c = profile_collection c'"
    and "parse_error c \<noteq> AWS_AUTH_PROFILE_PARSE_FATAL_ERROR"
    and "parse_error c' \<noteq> AWS_AUTH_PROFILE_PARSE_FATAL_ERROR"
  shows "same_but_error (s_parse_and_apply_line_to_profile_collection c (CHR ''['' # r))
           (s_parse_and_apply_line_to_profile_collection c' (CHR ''['' # r)) \<and>
         same_fatality (s_parse_and_apply_line_to_profile_collection c (CHR ''['' # r))
           (s_parse_and_apply_line_to_profile_collection c' (CHR ''['' # r))"
  using declaration_cong [OF assms, of "CHR ''['' # aws_byte_cursor_right_trim_pred r s_is_carriage_return"]
    declaration_line_taken [of "aws_byte_cursor_right_trim_pred r s_is_carriage_return" c]
  by (simp add: apply_declaration_line)

lemma parse_lines_nonfatal:
  "s_parse_lines c ls = Some r \<Longrightarrow> parse_error c \<noteq> AWS_AUTH_PROFILE_PARSE_FATAL_ERROR \<Longrightarrow>
   parse_error r \<noteq> AWS_AUTH_PROFILE_PARSE_FATAL_ERROR"
  by (induction ls arbitrary: c) (auto simp: Let_def split: if_splits)

lemma parse_lines_cong:
  "same_but_error c c' \<Longrightarrow> parse_error c \<noteq> AWS_AUTH_PROFILE_PARSE_FATAL_ERROR \<Longrightarrow>
   parse_error c' \<noteq> AWS_AUTH_PROFILE_PARSE_FATAL_ERROR \<Longrightarrow> s_parse_lines c ls = Some r \<Longrightarrow>
   \<exists>r'. s_parse_lines c' ls = Some r' \<and> same_but_error r r'"
proof (induction ls arbitrary: c c')
  case Nil
  then show ?case by simp
next
  case (Cons l ls)
  let ?c1 = "s_parse_and_apply_line_to_profile_collection c l"
  let ?c1' = "s_parse_and_apply_line_to_profile_collection c' l"
  from Cons.prems(4) have nf1: "parse_error ?c1 \<noteq> AWS_AUTH_PROFILE_PARSE_FATAL_ERROR"
    and run: "s_parse_lines ?c1 ls = Some r"
    by (simp_all add: Let_def split: if_splits)
  from apply_line_cong [OF Cons.prems(1-3), of l]
  have sbe: "same_but_error ?c1 ?c1'" and sf: "same_fatality ?c1 ?c1'" by simp_all
  from sf nf1 have nf1': "parse_error ?c1' \<noteq> AWS_AUTH_PROFILE_PARSE_FATAL_ERROR"
    by (simp add: same_fatality_def)
  from Cons.IH [OF sbe nf1 nf1' run] nf1' show ?case
    by (simp add: Let_def)
qed

subsection \<open>What a line that is no declaration can change\<close>

lemma delete_map_entry: "AList.delete k (AList.map_entry k f xs) = AList.delete k xs"
  by (induction xs) auto

lemma keys_map_entry: "map fst (AList.map_entry k f xs) = map fst xs"
  by (induction xs) auto

text \<open>
  \<open>frame_current c c'\<close>: from \<open>c\<close> to \<open>c'\<close> the collection has changed at most in the
  properties of the profile that is current in \<open>c\<close>.
\<close>

definition frame_current :: "profile_file_parse_context \<Rightarrow> profile_file_parse_context \<Rightarrow> bool" where
  "frame_current c c' =
     (profile_source (profile_collection c') = profile_source (profile_collection c) \<and>
      map fst (profiles (profile_collection c')) = map fst (profiles (profile_collection c)) \<and>
      (current_profile c = None \<longrightarrow> profile_collection c' = profile_collection c) \<and>
      (\<forall>k. current_profile c \<noteq> Some k \<longrightarrow>
           map_of (profiles (profile_collection c')) k = map_of (profiles (profile_collection c)) k) \<and>
      (\<forall>k. map_option has_profile_prefix (map_of (profiles (profile_collection c')) k)
           = map_option has_profile_prefix (map_of (profiles (profile_collection c)) k)) \<and>
      (\<forall>k. current_profile c = Some k \<longrightarrow>
           AList.delete k (profiles (profile_collection c'))
           = AList.delete k (profiles (profile_collection c))))"

lemma frame_current_refl: "frame_current c c"
  by (simp add: frame_current_def)

lemma frame_current_error: "frame_current c c' \<Longrightarrow> frame_current c (c'\<lparr>parse_error := e\<rparr>)"
  by (simp add: frame_current_def)

lemma frame_current_property: "frame_current c c' \<Longrightarrow> frame_current c (c'\<lparr>current_property := k\<rparr>)"
  by (simp add: frame_current_def)

lemma frame_current_from:
  "frame_current (c\<lparr>current_property := k\<rparr>) c' \<Longrightarrow> frame_current c c'"
  by (simp add: frame_current_def)

lemma frame_current_trans:
  "frame_current c c1 \<Longrightarrow> frame_current c1 c2 \<Longrightarrow> current_profile c1 = current_profile c \<Longrightarrow>
   frame_current c c2"
  by (simp add: frame_current_def)

lemma frame_update_profile:
  assumes "\<And>p. has_profile_prefix (f p) = has_profile_prefix p"
  shows "frame_current c (context_update_profile f c)"
  using assms
  by (auto simp: frame_current_def update_profile_collection map_of_map_entry delete_map_entry
      keys_map_entry split: option.splits)

lemma frame_update_property: "frame_current c (context_update_property f c)"
  unfolding context_update_property_def
  by (cases "current_property c") (simp_all add: frame_current_refl frame_update_profile)

lemma continuation_frame: "frame_current c (snd (s_parse_property_continuation l c))"
proof -
  have two: "frame_current c (context_update_property g (context_update_property f c))" for f g
    using frame_current_trans [OF frame_update_property [of c f]
        frame_update_property [of "context_update_property f c" g]]
    by simp
  show ?thesis
    by (simp add: s_parse_property_continuation_def Let_def parse_by_character_predicate_eq
        frame_current_refl frame_current_error frame_update_property two
        split: prod.splits option.splits)
qed

lemma property_frame: "frame_current c (snd (s_parse_property l c))"
proof -
  have "frame_current (c\<lparr>current_property := None\<rparr>)
      (context_update_profile (\<lambda>p. s_profile_add_property p k v) (c\<lparr>current_property := None\<rparr>))" for k v
    by (rule frame_update_profile) (simp add: s_profile_add_property_def)
  then have "frame_current c
      (context_update_profile (\<lambda>p. s_profile_add_property p k v) (c\<lparr>current_property := None\<rparr>))" for k v
    by (rule frame_current_from)
  then have upd: "frame_current c
      ((context_update_profile (\<lambda>p. s_profile_add_property p k v)
          (c\<lparr>current_property := None\<rparr>))\<lparr>current_property := Some k\<rparr>)" for k v
    by (rule frame_current_property)
  have base: "frame_current c (c\<lparr>current_property := None\<rparr>)"
    by (simp add: frame_current_def)
  show ?thesis
    by (simp add: s_parse_property_def Let_def parse_by_character_predicate_eq
        frame_current_error upd base split: prod.splits option.splits)
qed

lemma apply_other_line_frame:
  assumes "l = [] \<or> hd l \<noteq> CHR ''[''"
  shows "frame_current c (s_parse_and_apply_line_to_profile_collection c l)"
proof -
  let ?l1 = "aws_byte_cursor_right_trim_pred l s_is_carriage_return"
  have "?l1 = [] \<or> hd ?l1 \<noteq> CHR ''[''"
  proof (cases "?l1 = []")
    case True
    then show ?thesis by simp
  next
    case False
    then have "l \<noteq> []" by (auto simp: aws_byte_cursor_right_trim_pred_def)
    with False assms right_trim_hd [of l s_is_carriage_return] show ?thesis by simp
  qed
  note nd = declaration_needs_bracket [OF this]
  show ?thesis
  proof (cases "fst (s_parse_property_continuation ?l1 c)")
    case True
    then show ?thesis
      using continuation_frame [of c ?l1]
      by (simp add: apply_line_unfold Let_def nd frame_current_refl)
  next
    case False
    from continuation_not_taken [OF this] show ?thesis
      using property_frame [of c ?l1]
      by (simp add: apply_line_unfold Let_def nd frame_current_refl property_always_taken)
  qed
qed

lemma property_no_profile:
  "current_profile c = None \<Longrightarrow> current_property (snd (s_parse_property l c)) = None"
  by (simp add: s_parse_property_def Let_def parse_by_character_predicate_eq
      split: prod.splits option.splits)

lemma apply_other_line_no_profile:
  assumes "l = [] \<or> hd l \<noteq> CHR ''[''"
    and "current_profile c = None" and "current_property c = None"
  shows "s_parse_and_apply_line_to_profile_collection c l =
         c\<lparr>parse_error := parse_error (s_parse_and_apply_line_to_profile_collection c l)\<rparr>"
proof -
  let ?c1 = "s_parse_and_apply_line_to_profile_collection c l"
  let ?l1 = "aws_byte_cursor_right_trim_pred l s_is_carriage_return"
  have "?l1 = [] \<or> hd ?l1 \<noteq> CHR ''[''"
  proof (cases "?l1 = []")
    case True
    then show ?thesis by simp
  next
    case False
    then have "l \<noteq> []" by (auto simp: aws_byte_cursor_right_trim_pred_def)
    with False assms right_trim_hd [of l s_is_carriage_return] show ?thesis by simp
  qed
  note nd = declaration_needs_bracket [OF this]
  have coll: "profile_collection ?c1 = profile_collection c"
    using apply_other_line_frame [OF assms(1), of c] assms(2) by (simp add: frame_current_def)
  have keeps: "has_seen_profile ?c1 = has_seen_profile c" "current_profile ?c1 = current_profile c"
    using apply_other_line_keeps [OF assms(1), of c] by simp_all
  have "current_property ?c1 = None"
  proof (cases "fst (s_parse_property_continuation ?l1 c)")
    case True
    then show ?thesis
      using continuation_keeps [of ?l1 c] assms(3)
      by (simp add: apply_line_unfold Let_def nd)
  next
    case False
    from continuation_not_taken [OF this] show ?thesis
      using property_no_profile [OF assms(2), of ?l1] assms(3)
      by (simp add: apply_line_unfold Let_def nd property_always_taken)
  qed
  with coll keeps assms show ?thesis
    by (cases c; cases ?c1) simp
qed

subsection \<open>The default profile of a config file\<close>

definition default_prefixed :: "aws_profile_collection \<Rightarrow> bool" where
  "default_prefixed collection =
     (map_option has_profile_prefix (map_of (profiles collection) ''default'') = Some True)"

lemma add_profile_source:
  "profile_source (fst (s_profile_collection_add_profile collection name has_prefix))
   = profile_source collection"
  by (simp add: s_profile_collection_add_profile_def Let_def split: option.splits)

lemma add_profile_distinct:
  "distinct (map fst (profiles collection)) \<Longrightarrow>
   distinct (map fst (profiles (fst (s_profile_collection_add_profile collection name has_prefix))))"
  by (simp add: s_profile_collection_add_profile_def Let_def aws_hash_table_put_def
      aws_hash_table_remove_def distinct_update distinct_delete split: option.splits)

lemma add_profile_other:
  "name \<noteq> k \<Longrightarrow>
   map_of (profiles (fst (s_profile_collection_add_profile collection name has_prefix))) k
   = map_of (profiles collection) k"
  by (simp add: s_profile_collection_add_profile_def Let_def aws_hash_table_put_def
      aws_hash_table_remove_def update_conv' delete_conv' split: option.splits)

lemma add_default_existing_prefixed:
  assumes "profile_source collection = AWS_PST_CONFIG" and "default_prefixed collection"
  shows "s_profile_collection_add_profile collection ''default'' has_prefix
         = (collection, if has_prefix then Some ''default'' else None)"
  using assms
  by (auto simp: s_profile_collection_add_profile_def Let_def default_prefixed_def
      aws_hash_table_find_def s_is_default_profile_name_def s_default_profile_name_def
      split: option.splits)

lemma add_default_prefixed_new:
  assumes "profile_source collection = AWS_PST_CONFIG" and "\<not> default_prefixed collection"
  shows "s_profile_collection_add_profile collection ''default'' True
         = (collection\<lparr>profiles := AList.update ''default'' (aws_profile_new ''default'' True)
               (AList.delete ''default'' (profiles collection))\<rparr>, Some ''default'')"
proof (cases "map_of (profiles collection) ''default''")
  case None
  then have "''default'' \<notin> fst ` set (profiles collection)"
    by (simp add: map_of_eq_None_iff)
  then have "AList.delete ''default'' (profiles collection) = profiles collection"
    by simp
  with None assms show ?thesis
    by (simp add: s_profile_collection_add_profile_def Let_def default_prefixed_def
        aws_hash_table_find_def aws_hash_table_put_def s_is_default_profile_name_def
        s_default_profile_name_def)
next
  case (Some q)
  with assms show ?thesis
    by (simp add: s_profile_collection_add_profile_def Let_def default_prefixed_def
        aws_hash_table_find_def aws_hash_table_put_def aws_hash_table_remove_def
        s_is_default_profile_name_def s_default_profile_name_def delete_conv')
qed

lemma add_default_unprefixed:
  assumes "profile_source collection = AWS_PST_CONFIG" and "\<not> default_prefixed collection"
  shows "snd (s_profile_collection_add_profile collection ''default'' False) = Some ''default'' \<and>
         AList.delete ''default''
           (profiles (fst (s_profile_collection_add_profile collection ''default'' False)))
         = AList.delete ''default'' (profiles collection) \<and>
         \<not> default_prefixed (fst (s_profile_collection_add_profile collection ''default'' False))"
  using assms
  by (auto simp: s_profile_collection_add_profile_def Let_def default_prefixed_def
      aws_hash_table_find_def aws_hash_table_put_def aws_hash_table_remove_def
      s_is_default_profile_name_def s_default_profile_name_def delete_update_same
      update_conv' aws_profile_new_def split: option.splits)

lemma classify_default:
  "classify_declaration AWS_PST_CONFIG ''[default]'' = Declaration_accepted ''default'' False"
  by (simp add: classify_declaration_def Let_def char_class_defs s_parse_by_token_def
      s_profile_token_def aws_byte_cursor_right_trim_pred_def s_is_default_profile_name_def
      s_default_profile_name_def)

lemma classify_profile_default:
  "classify_declaration AWS_PST_CONFIG ''[profile default]'' = Declaration_accepted ''default'' True"
  by (simp add: classify_declaration_def Let_def char_class_defs s_parse_by_token_def
      s_profile_token_def aws_byte_cursor_right_trim_pred_def s_is_default_profile_name_def
      s_default_profile_name_def)

lemma apply_default_line:
  assumes "profile_source (profile_collection c) = AWS_PST_CONFIG"
  shows "s_parse_and_apply_line_to_profile_collection c ''[default]''
         = snd (apply_declaration (Declaration_accepted ''default'' False) c)"
proof -
  have "aws_byte_cursor_right_trim_pred ''default]'' s_is_carriage_return = ''default]''"
    by (simp add: aws_byte_cursor_right_trim_pred_def s_is_carriage_return_def)
  with apply_declaration_line [of c "''default]''"] assms show ?thesis
    by (simp add: declaration_normal_form classify_default)
qed

lemma apply_profile_default_line:
  assumes "profile_source (profile_collection c) = AWS_PST_CONFIG"
  shows "s_parse_and_apply_line_to_profile_collection c ''[profile default]''
         = snd (apply_declaration (Declaration_accepted ''default'' True) c)"
proof -
  have "aws_byte_cursor_right_trim_pred ''profile default]'' s_is_carriage_return
      = ''profile default]''"
    by (simp add: aws_byte_cursor_right_trim_pred_def s_is_carriage_return_def)
  with apply_declaration_line [of c "''profile default]''"] assms show ?thesis
    by (simp add: declaration_normal_form classify_profile_default)
qed

lemma apply_line_cases:
  obtains (bracket) r where "l = CHR ''['' # r" | (other) "l = [] \<or> hd l \<noteq> CHR ''[''"
  by (cases l) auto

lemma apply_line_source:
  "profile_source (profile_collection (s_parse_and_apply_line_to_profile_collection c l))
   = profile_source (profile_collection c)"
proof (cases l rule: apply_line_cases)
  case (bracket r)
  let ?o = "classify_declaration (profile_source (profile_collection c))
      (CHR ''['' # aws_byte_cursor_right_trim_pred r s_is_carriage_return)"
  show ?thesis
    unfolding bracket apply_declaration_line declaration_normal_form
    by (cases ?o) (simp_all add: apply_declaration_def add_profile_source)
next
  case other
  from apply_other_line_frame [OF this, of c] show ?thesis
    by (simp add: frame_current_def)
qed

lemma apply_line_distinct:
  assumes "distinct (map fst (profiles (profile_collection c)))"
  shows "distinct (map fst (profiles (profile_collection
           (s_parse_and_apply_line_to_profile_collection c l))))"
proof (cases l rule: apply_line_cases)
  case (bracket r)
  let ?o = "classify_declaration (profile_source (profile_collection c))
      (CHR ''['' # aws_byte_cursor_right_trim_pred r s_is_carriage_return)"
  show ?thesis
    unfolding bracket apply_declaration_line declaration_normal_form
    using assms by (cases ?o) (simp_all add: apply_declaration_def add_profile_distinct)
next
  case other
  from apply_other_line_frame [OF this, of c] assms show ?thesis
    by (simp add: frame_current_def)
qed

lemma apply_line_default_prefixed:
  assumes "profile_source (profile_collection c) = AWS_PST_CONFIG"
    and "default_prefixed (profile_collection c)"
  shows "default_prefixed (profile_collection (s_parse_and_apply_line_to_profile_collection c l))"
proof (cases l rule: apply_line_cases)
  case (bracket r)
  let ?o = "classify_declaration (profile_source (profile_collection c))
      (CHR ''['' # aws_byte_cursor_right_trim_pred r s_is_carriage_return)"
  have acc: "default_prefixed (fst (s_profile_collection_add_profile (profile_collection c) n p))"
    for n p
  proof (cases "n = ''default''")
    case True
    with add_default_existing_prefixed [OF assms, of p] assms(2) show ?thesis by simp
  next
    case False
    from add_profile_other [OF this, of "profile_collection c" p] assms(2) show ?thesis
      by (simp add: default_prefixed_def)
  qed
  show ?thesis
    unfolding bracket apply_declaration_line declaration_normal_form
    using assms(2) by (cases ?o) (simp_all add: apply_declaration_def acc)
next
  case other
  from apply_other_line_frame [OF this, of c] assms(2) show ?thesis
    by (simp add: frame_current_def default_prefixed_def)
qed

lemma parse_lines_invariants:
  "s_parse_lines c ls = Some r \<Longrightarrow>
   profile_source (profile_collection r) = profile_source (profile_collection c) \<and>
   (distinct (map fst (profiles (profile_collection c)))
      \<longrightarrow> distinct (map fst (profiles (profile_collection r)))) \<and>
   (profile_source (profile_collection c) = AWS_PST_CONFIG \<and> default_prefixed (profile_collection c)
      \<longrightarrow> default_prefixed (profile_collection r))"
proof (induction ls arbitrary: c)
  case Nil
  then show ?case by simp
next
  case (Cons l ls)
  let ?c1 = "s_parse_and_apply_line_to_profile_collection c l"
  from Cons.prems have "s_parse_lines ?c1 ls = Some r"
    by (simp add: Let_def split: if_splits)
  from Cons.IH [OF this] show ?case
    using apply_line_source [of c l] apply_line_distinct [of c l]
      apply_line_default_prefixed [of c l]
    by auto
qed

lemma profile_default_line_prefixed:
  assumes "profile_source (profile_collection c) = AWS_PST_CONFIG"
  shows "default_prefixed (profile_collection
           (s_parse_and_apply_line_to_profile_collection c ''[profile default]''))"
proof (cases "default_prefixed (profile_collection c)")
  case True
  with add_default_existing_prefixed [OF assms True, of True] show ?thesis
    by (simp add: apply_profile_default_line [OF assms] apply_declaration_def)
next
  case False
  with add_default_prefixed_new [OF assms False] show ?thesis
    by (simp add: apply_profile_default_line [OF assms] apply_declaration_def
        default_prefixed_def update_conv' aws_profile_new_def)
qed

lemma parse_lines_default_prefixed:
  assumes "''[profile default]'' \<in> set ls"
    and "s_parse_lines c ls = Some r"
    and "profile_source (profile_collection c) = AWS_PST_CONFIG"
  shows "default_prefixed (profile_collection r)"
proof -
  from assms(1) obtain a b where ls: "ls = a @ ''[profile default]'' # b"
    by (auto dest: split_list)
  from assms(2) ls obtain c1 where c1: "s_parse_lines c a = Some c1"
    and rest: "s_parse_lines c1 (''[profile default]'' # b) = Some r"
    by (auto simp: parse_lines_append split: option.splits)
  let ?c2 = "s_parse_and_apply_line_to_profile_collection c1 ''[profile default]''"
  from parse_lines_invariants [OF c1] assms(3)
  have src1: "profile_source (profile_collection c1) = AWS_PST_CONFIG" by simp
  from rest have run: "s_parse_lines ?c2 b = Some r"
    by (simp add: Let_def split: if_splits)
  have "profile_source (profile_collection ?c2) = AWS_PST_CONFIG"
    using apply_line_source [of c1 "''[profile default]''"] src1 by simp
  with parse_lines_invariants [OF run] profile_default_line_prefixed [OF src1]
  show ?thesis by simp
qed

lemma body_run_frame:
  "\<forall>l\<in>set ls. l = [] \<or> hd l \<noteq> CHR ''['' \<Longrightarrow> s_parse_lines c ls = Some r \<Longrightarrow>
   frame_current c r \<and> current_profile r = current_profile c"
proof (induction ls arbitrary: c)
  case Nil
  then show ?case by (simp add: frame_current_refl)
next
  case (Cons l ls)
  let ?c1 = "s_parse_and_apply_line_to_profile_collection c l"
  from Cons.prems have run: "s_parse_lines ?c1 ls = Some r"
    and l: "l = [] \<or> hd l \<noteq> CHR ''[''" and ls: "\<forall>l\<in>set ls. l = [] \<or> hd l \<noteq> CHR ''[''"
    by (simp_all add: Let_def split: if_splits)
  from Cons.IH [OF ls run] have f: "frame_current ?c1 r" and p: "current_profile r = current_profile ?c1"
    by simp_all
  from apply_other_line_keeps [OF l, of c] have k: "current_profile ?c1 = current_profile c"
    by simp
  from frame_current_trans [OF apply_other_line_frame [OF l, of c] f k] p k show ?case
    by simp
qed

lemma body_run_no_profile:
  "\<forall>l\<in>set ls. l = [] \<or> hd l \<noteq> CHR ''['' \<Longrightarrow> current_profile c = None \<Longrightarrow>
   current_property c = None \<Longrightarrow> s_parse_lines c ls = Some r \<Longrightarrow>
   \<exists>e. r = c\<lparr>parse_error := e\<rparr>"
proof (induction ls arbitrary: c)
  case Nil
  then have "r = c\<lparr>parse_error := parse_error c\<rparr>" by simp
  then show ?case by (rule exI)
next
  case (Cons l ls)
  let ?c1 = "s_parse_and_apply_line_to_profile_collection c l"
  from Cons.prems have run: "s_parse_lines ?c1 ls = Some r"
    and l: "l = [] \<or> hd l \<noteq> CHR ''[''" and ls: "\<forall>l\<in>set ls. l = [] \<or> hd l \<noteq> CHR ''[''"
    by (simp_all add: Let_def split: if_splits)
  from apply_other_line_no_profile [OF l Cons.prems(2,3)]
  obtain e where c1: "?c1 = c\<lparr>parse_error := e\<rparr>" by blast
  with Cons.prems(2,3) have "current_profile ?c1 = None" "current_property ?c1 = None"
    by simp_all
  from Cons.IH [OF ls this run] obtain e' where "r = ?c1\<lparr>parse_error := e'\<rparr>" by blast
  with c1 have "r = c\<lparr>parse_error := e'\<rparr>" by simp
  then show ?case by blast
qed

lemma count_list_distinct: "distinct xs \<Longrightarrow> x \<in> set xs \<Longrightarrow> count_list xs x = 1"
  by (induction xs) auto

lemma initial_context_facts:
  "profile_source (profile_collection (s_initial_context source)) = source"
  "parse_error (s_initial_context source) \<noteq> AWS_AUTH_PROFILE_PARSE_FATAL_ERROR"
  "distinct (map fst (profiles (profile_collection (s_initial_context source))))"
  by (simp_all add: s_initial_context_def)

lemma unprefixed_then_prefixed:
  assumes body: "\<forall>l\<in>set body. l = [] \<or> hd l \<noteq> CHR ''[''"
    and src: "profile_source (profile_collection c0) = AWS_PST_CONFIG"
    and nf: "parse_error c0 \<noteq> AWS_AUTH_PROFILE_PARSE_FATAL_ERROR"
    and run: "s_parse_lines (s_parse_and_apply_line_to_profile_collection c0 ''[default]'') body
              = Some cb"
  shows "same_but_error (s_parse_and_apply_line_to_profile_collection cb ''[profile default]'')
           (s_parse_and_apply_line_to_profile_collection c0 ''[profile default]'')"
proof -
  let ?cU = "s_parse_and_apply_line_to_profile_collection c0 ''[default]''"
  have cU: "?cU = snd (apply_declaration (Declaration_accepted ''default'' False) c0)"
    by (rule apply_default_line [OF src])
  then have nfU: "parse_error ?cU \<noteq> AWS_AUTH_PROFILE_PARSE_FATAL_ERROR"
    using nf by (simp add: apply_declaration_def)
  from parse_lines_nonfatal [OF run nfU]
  have nfb: "parse_error cb \<noteq> AWS_AUTH_PROFILE_PARSE_FATAL_ERROR" .
  show ?thesis
  proof (cases "default_prefixed (profile_collection c0)")
    case True
    from add_default_existing_prefixed [OF src True, of False] cU
    have "current_profile ?cU = None" "current_property ?cU = None"
      "profile_collection ?cU = profile_collection c0"
      by (simp_all add: apply_declaration_def)
    with body_run_no_profile [OF body _ _ run] obtain e where "cb = ?cU\<lparr>parse_error := e\<rparr>"
      by blast
    with \<open>profile_collection ?cU = profile_collection c0\<close>
    have "profile_collection cb = profile_collection c0" by simp
    from declaration_line_cong [OF this nfb nf, of "''profile default]''"] show ?thesis
      by simp
  next
    case False
    from add_default_unprefixed [OF src False] cU
    have curU: "current_profile ?cU = Some ''default''"
      and delU: "AList.delete ''default'' (profiles (profile_collection ?cU))
          = AList.delete ''default'' (profiles (profile_collection c0))"
      and npU: "\<not> default_prefixed (profile_collection ?cU)"
      by (simp_all add: apply_declaration_def)
    from body_run_frame [OF body run] curU
    have fr: "frame_current ?cU cb" and curb: "current_profile cb = Some ''default''"
      by simp_all
    from fr curU delU have delb: "AList.delete ''default'' (profiles (profile_collection cb))
          = AList.delete ''default'' (profiles (profile_collection c0))"
      by (simp add: frame_current_def)
    from fr npU have npb: "\<not> default_prefixed (profile_collection cb)"
      by (simp add: frame_current_def default_prefixed_def)
    from fr apply_line_source [of c0 "''[default]''"] src
    have srcb: "profile_source (profile_collection cb) = AWS_PST_CONFIG"
      by (simp add: frame_current_def)
    have "profile_collection cb\<lparr>profiles := x\<rparr> = profile_collection c0\<lparr>profiles := x\<rparr>" for x
      using srcb src by (cases "profile_collection cb"; cases "profile_collection c0") simp
    with add_default_prefixed_new [OF srcb npb] add_default_prefixed_new [OF src False] delb
    show ?thesis
      by (simp add: apply_profile_default_line [OF srcb] apply_profile_default_line [OF src]
          apply_declaration_def same_but_error_def)
  qed
qed

lemma unprefixed_after_prefixed:
  assumes body: "\<forall>l\<in>set body. l = [] \<or> hd l \<noteq> CHR ''[''"
    and src: "profile_source (profile_collection c0) = AWS_PST_CONFIG"
    and pre: "default_prefixed (profile_collection c0)"
    and nf: "parse_error c0 \<noteq> AWS_AUTH_PROFILE_PARSE_FATAL_ERROR"
    and run: "s_parse_lines (s_parse_and_apply_line_to_profile_collection c0 ''[default]'') body
              = Some cb"
  shows "profile_collection cb = profile_collection c0 \<and>
         parse_error cb \<noteq> AWS_AUTH_PROFILE_PARSE_FATAL_ERROR"
proof -
  let ?cU = "s_parse_and_apply_line_to_profile_collection c0 ''[default]''"
  have cU: "?cU = snd (apply_declaration (Declaration_accepted ''default'' False) c0)"
    by (rule apply_default_line [OF src])
  then have nfU: "parse_error ?cU \<noteq> AWS_AUTH_PROFILE_PARSE_FATAL_ERROR"
    using nf by (simp add: apply_declaration_def)
  from add_default_existing_prefixed [OF src pre, of False] cU
  have "current_profile ?cU = None" "current_property ?cU = None"
    and coll: "profile_collection ?cU = profile_collection c0"
    by (simp_all add: apply_declaration_def)
  with body_run_no_profile [OF body _ _ run] obtain e where "cb = ?cU\<lparr>parse_error := e\<rparr>"
    by blast
  with coll parse_lines_nonfatal [OF run nfU] show ?thesis by simp
qed

text \<open>
  C2. Parse a config file (source kind \<open>AWS_PST_CONFIG\<close>) line by line, and let the body of
  the unprefixed declaration be lines none of which begins with \<open>[\<close>.
  \<^item> Whenever the lines hold \<open>[profile default]\<close> and the parse returns a collection, the
    collection has exactly one profile with the key \<open>default\<close>, and that profile carries
    the \<open>profile\<close> prefix.
  \<^item> \<open>[default]\<close> with its body before \<open>[profile default]\<close>: the collection is the one
    that the same lines without \<open>[default]\<close> and its body give.
  \<^item> \<open>[default]\<close> with its body somewhere after \<open>[profile default]\<close>, up to the end of the
    lines or the next declaration: again the collection is the one that the lines without
    \<open>[default]\<close> and its body give.
  So the properties of the unprefixed declaration are discarded, and the ones of the
  profile \<open>default\<close> are those declared under the prefixed declaration.
\<close>

theorem config_default_profile_precedence:
  assumes body: "\<forall>l\<in>set unprefixed_body. l = [] \<or> hd l \<noteq> CHR ''[''"
  shows "(''[profile default]'' \<in> set ls \<and>
          s_parse_lines (s_initial_context AWS_PST_CONFIG) ls = Some r
          \<longrightarrow> count_list (map fst (profiles (profile_collection r))) ''default'' = 1 \<and>
              default_prefixed (profile_collection r)) \<and>
         (s_parse_lines (s_initial_context AWS_PST_CONFIG)
            (before @ ''[default]'' # unprefixed_body @ ''[profile default]'' # after) = Some r1
          \<longrightarrow> (\<exists>r'. s_parse_lines (s_initial_context AWS_PST_CONFIG)
                      (before @ ''[profile default]'' # after) = Some r' \<and>
                    profile_collection r' = profile_collection r1)) \<and>
         (''[profile default]'' \<in> set before \<and>
          (after = [] \<or> (hd after \<noteq> [] \<and> hd (hd after) = CHR ''['')) \<and>
          s_parse_lines (s_initial_context AWS_PST_CONFIG)
            (before @ ''[default]'' # unprefixed_body @ after) = Some r2
          \<longrightarrow> (\<exists>r'. s_parse_lines (s_initial_context AWS_PST_CONFIG) (before @ after) = Some r' \<and>
                    profile_collection r' = profile_collection r2))"
proof (intro conjI impI)
  let ?init = "s_initial_context AWS_PST_CONFIG"
  note init = initial_context_facts [of AWS_PST_CONFIG]
  {
    assume a: "''[profile default]'' \<in> set ls \<and> s_parse_lines ?init ls = Some r"
    from parse_lines_default_prefixed [of ls ?init r] a init(1)
    show dp: "default_prefixed (profile_collection r)" by simp
    then have "''default'' \<in> set (map fst (profiles (profile_collection r)))"
      by (auto simp: default_prefixed_def dest: map_of_SomeD intro: rev_image_eqI)
    moreover from parse_lines_invariants [of ?init ls r] a init(3)
    have "distinct (map fst (profiles (profile_collection r)))" by simp
    ultimately show "count_list (map fst (profiles (profile_collection r))) ''default'' = 1"
      by (simp add: count_list_distinct)
  }
  {
    assume a: "s_parse_lines ?init
        (before @ ''[default]'' # unprefixed_body @ ''[profile default]'' # after) = Some r1"
    then obtain c0 where c0: "s_parse_lines ?init before = Some c0"
      and rest: "s_parse_lines c0 (''[default]'' # unprefixed_body @ ''[profile default]'' # after)
          = Some r1"
      by (auto simp: parse_lines_append split: option.splits)
    from parse_lines_invariants [OF c0] init(1)
    have src: "profile_source (profile_collection c0) = AWS_PST_CONFIG" by simp
    from parse_lines_nonfatal [OF c0 init(2)]
    have nf: "parse_error c0 \<noteq> AWS_AUTH_PROFILE_PARSE_FATAL_ERROR" .
    let ?cU = "s_parse_and_apply_line_to_profile_collection c0 ''[default]''"
    from rest have "s_parse_lines ?cU (unprefixed_body @ ''[profile default]'' # after) = Some r1"
      by (simp add: Let_def split: if_splits)
    then obtain cb where cb: "s_parse_lines ?cU unprefixed_body = Some cb"
      and rest2: "s_parse_lines cb (''[profile default]'' # after) = Some r1"
      by (auto simp: parse_lines_append split: option.splits)
    let ?cP = "s_parse_and_apply_line_to_profile_collection cb ''[profile default]''"
    let ?cP' = "s_parse_and_apply_line_to_profile_collection c0 ''[profile default]''"
    from rest2 have nfP: "parse_error ?cP \<noteq> AWS_AUTH_PROFILE_PARSE_FATAL_ERROR"
      and run: "s_parse_lines ?cP after = Some r1"
      by (simp_all add: Let_def split: if_splits)
    have nfP': "parse_error ?cP' \<noteq> AWS_AUTH_PROFILE_PARSE_FATAL_ERROR"
      using nf by (simp add: apply_profile_default_line [OF src] apply_declaration_def)
    from parse_lines_cong [OF unprefixed_then_prefixed [OF body src nf cb] nfP nfP' run]
    obtain r' where "s_parse_lines ?cP' after = Some r'" "same_but_error r1 r'"
      by blast
    with c0 nfP' show "\<exists>r'. s_parse_lines ?init (before @ ''[profile default]'' # after) = Some r' \<and>
        profile_collection r' = profile_collection r1"
      by (simp add: parse_lines_append Let_def same_but_error_def)
  }
  {
    assume a: "''[profile default]'' \<in> set before \<and>
        (after = [] \<or> (hd after \<noteq> [] \<and> hd (hd after) = CHR ''['')) \<and>
        s_parse_lines ?init (before @ ''[default]'' # unprefixed_body @ after) = Some r2"
    then obtain c0 where c0: "s_parse_lines ?init before = Some c0"
      and rest: "s_parse_lines c0 (''[default]'' # unprefixed_body @ after) = Some r2"
      by (auto simp: parse_lines_append split: option.splits)
    from parse_lines_invariants [OF c0] init(1)
    have src: "profile_source (profile_collection c0) = AWS_PST_CONFIG" by simp
    from parse_lines_nonfatal [OF c0 init(2)]
    have nf: "parse_error c0 \<noteq> AWS_AUTH_PROFILE_PARSE_FATAL_ERROR" .
    from parse_lines_default_prefixed [OF _ c0] a init(1)
    have pre: "default_prefixed (profile_collection c0)" by simp
    let ?cU = "s_parse_and_apply_line_to_profile_collection c0 ''[default]''"
    from rest have "s_parse_lines ?cU (unprefixed_body @ after) = Some r2"
      by (simp add: Let_def split: if_splits)
    then obtain cb where cb: "s_parse_lines ?cU unprefixed_body = Some cb"
      and rest2: "s_parse_lines cb after = Some r2"
      by (auto simp: parse_lines_append split: option.splits)
    from unprefixed_after_prefixed [OF body src pre nf cb]
    have coll: "profile_collection cb = profile_collection c0"
      and nfb: "parse_error cb \<noteq> AWS_AUTH_PROFILE_PARSE_FATAL_ERROR"
      by simp_all
    show "\<exists>r'. s_parse_lines ?init (before @ after) = Some r' \<and>
        profile_collection r' = profile_collection r2"
    proof (cases after)
      case Nil
      with rest2 c0 coll show ?thesis by simp
    next
      case (Cons d rest3)
      with a obtain t where d: "d = CHR ''['' # t" by (cases d) auto
      let ?cD = "s_parse_and_apply_line_to_profile_collection cb d"
      let ?cD' = "s_parse_and_apply_line_to_profile_collection c0 d"
      from rest2 Cons have nfD: "parse_error ?cD \<noteq> AWS_AUTH_PROFILE_PARSE_FATAL_ERROR"
        and run: "s_parse_lines ?cD rest3 = Some r2"
        by (simp_all add: Let_def split: if_splits)
      from declaration_line_cong [OF coll nfb nf, of t] d
      have sbe: "same_but_error ?cD ?cD'" and sf: "same_fatality ?cD ?cD'" by simp_all
      from sf nfD have nfD': "parse_error ?cD' \<noteq> AWS_AUTH_PROFILE_PARSE_FATAL_ERROR"
        by (simp add: same_fatality_def)
      from parse_lines_cong [OF sbe nfD nfD' run]
      obtain r' where "s_parse_lines ?cD' rest3 = Some r'" "same_but_error r2 r'" by blast
      with c0 nfD' Cons show ?thesis
        by (simp add: parse_lines_append Let_def same_but_error_def)
    qed
  }
qed

definition example_prefixed_only :: "string list" where
  "example_prefixed_only = [''[profile default]'', ''b = 2'']"

definition example_unprefixed_first :: "string list" where
  "example_unprefixed_first = [''[default]'', ''a = 1'', ''[profile default]'', ''b = 2'']"

definition example_prefixed_first :: "string list" where
  "example_prefixed_first = [''[profile default]'', ''b = 2'', ''[default]'', ''a = 1'']"

theorem config_default_profile_precedence_witness:
  "map_option profile_collection
     (s_parse_lines (s_initial_context AWS_PST_CONFIG) example_unprefixed_first)
   = map_option profile_collection
       (s_parse_lines (s_initial_context AWS_PST_CONFIG) example_prefixed_only) \<and>
   map_option profile_collection
     (s_parse_lines (s_initial_context AWS_PST_CONFIG) example_prefixed_first)
   = map_option profile_collection
       (s_parse_lines (s_initial_context AWS_PST_CONFIG) example_prefixed_only) \<and>
   map_option profile_collection
     (s_parse_lines (s_initial_context AWS_PST_CONFIG) example_prefixed_first)
   = Some \<lparr>profile_source = AWS_PST_CONFIG,
            profiles = [(''default'',
              \<lparr>profile_name = ''default'', has_profile_prefix = True,
               properties = [(''b'', aws_profile_property_new ''b'' ''2'')]\<rparr>)]\<rparr>"
proof -
  let ?init = "s_initial_context AWS_PST_CONFIG"
  let ?X = "\<lparr>profile_source = AWS_PST_CONFIG,
            profiles = [(''default'',
              \<lparr>profile_name = ''default'', has_profile_prefix = True,
               properties = [(''b'', aws_profile_property_new ''b'' ''2'')]\<rparr>)]\<rparr>"
  have body: "\<forall>l\<in>set [''a = 1'']. l = [] \<or> hd l \<noteq> CHR ''[''" by simp
  obtain cA where runA: "s_parse_lines ?init example_unprefixed_first = Some cA"
    by (simp add: parse_eval example_unprefixed_first_def)
  obtain cB where runB: "s_parse_lines ?init example_prefixed_first = Some cB"
    and collB: "profile_collection cB = ?X"
    by (simp add: parse_eval example_prefixed_first_def)
  have eqA: "[] @ ''[default]'' # [''a = 1''] @ ''[profile default]'' # [''b = 2'']
      = example_unprefixed_first"
    and eqP: "[] @ ''[profile default]'' # [''b = 2''] = example_prefixed_only"
    and eqB: "[''[profile default]'', ''b = 2''] @ ''[default]'' # [''a = 1''] @ []
      = example_prefixed_first"
    and eqP': "[''[profile default]'', ''b = 2''] @ [] = example_prefixed_only"
    by (simp_all add: example_unprefixed_first_def example_prefixed_only_def
        example_prefixed_first_def)
  have "\<exists>r'. s_parse_lines ?init example_prefixed_only = Some r' \<and>
      profile_collection r' = profile_collection cA"
    using config_default_profile_precedence [OF body, where before = "[]"
        and after = "[''b = 2'']" and ?r1.0 = cA] runA
    unfolding eqA eqP by blast
  with runA have first: "map_option profile_collection (s_parse_lines ?init example_unprefixed_first)
      = map_option profile_collection (s_parse_lines ?init example_prefixed_only)"
    by auto
  have "''[profile default]'' \<in> set [''[profile default]'', ''b = 2'']" by simp
  then have "\<exists>r'. s_parse_lines ?init example_prefixed_only = Some r' \<and>
      profile_collection r' = profile_collection cB"
    using config_default_profile_precedence [OF body,
        where before = "[''[profile default]'', ''b = 2'']" and after = "[]" and ?r2.0 = cB] runB
    unfolding eqB eqP' by blast
  with runB have second: "map_option profile_collection (s_parse_lines ?init example_prefixed_first)
      = map_option profile_collection (s_parse_lines ?init example_prefixed_only)"
    by auto
  from first second runB collB show ?thesis by simp
qed

section \<open>Properties of the XML node parser\<close>

lemma find_first_Some:
  "find_first hay needle = Some i \<Longrightarrow>
   take (length needle) (drop i hay) = needle \<and> i \<le> length hay \<and>
   (\<forall>j<i. take (length needle) (drop j hay) \<noteq> needle)"
proof (induction hay arbitrary: i)
  case Nil
  then show ?case by (simp split: if_splits)
next
  case (Cons x xs)
  show ?case
  proof (cases "take (length needle) (x # xs) = needle")
    case True
    with Cons.prems show ?thesis by simp
  next
    case False
    with Cons.prems obtain i' where i': "find_first xs needle = Some i'" "i = Suc i'"
      by auto
    from Cons.IH [OF i'(1)] False i'(2) show ?thesis
      by (auto simp: less_Suc_eq_0_disj)
  qed
qed

lemma find_first_at:
  assumes "\<forall>j<length body. take (length needle) (drop j (body @ needle @ rest)) \<noteq> needle"
  shows "find_first (body @ needle @ rest) needle = Some (length body)"
  using assms
proof (induction body)
  case Nil
  have "take (length needle) (needle @ rest) = needle" by simp
  then show ?case by (cases "needle @ rest") (simp_all del: take_append)
next
  case (Cons x xs)
  from Cons.prems have here: "take (length needle) ((x # xs) @ needle @ rest) \<noteq> needle"
    by (metis drop0 length_greater_0_conv list.distinct(1))
  from Cons.prems have "\<forall>j<length xs. take (length needle) (drop j (xs @ needle @ rest)) \<noteq> needle"
    by (metis Suc_less_eq append_Cons drop_Suc_Cons length_Cons)
  from Cons.IH [OF this] here show ?case by simp
qed

lemma find_first_absent:
  assumes "\<forall>j. take (length needle) (drop j hay) \<noteq> needle"
  shows "find_first hay needle = None"
proof (cases "find_first hay needle")
  case None
  then show ?thesis .
next
  case (Some i)
  from find_first_Some [OF this] assms show ?thesis by blast
qed

lemma takeWhile_no_nul:
  "CHR 0x00 \<notin> set a \<Longrightarrow> takeWhile (\<lambda>c. c \<noteq> CHR 0x00) (a @ b) = a @ takeWhile (\<lambda>c. c \<noteq> CHR 0x00) b"
  by (induction a) auto

lemma strstr_closing_tag:
  assumes nul: "CHR 0x00 \<notin> set body" "CHR 0x00 \<notin> set name"
    and first: "\<forall>j<length body. take (length (''</'' @ name @ ''>''))
                   (drop j (body @ ''</'' @ name @ ''>'')) \<noteq> ''</'' @ name @ ''>''"
  shows "strstr (body @ ''</'' @ name @ ''>'' @ rest) (''</'' @ name @ ''>'' @ [CHR 0x00])
         = Some (length body)"
proof -
  define tag where "tag = ''</'' @ name @ ''>''"
  have tnul: "CHR 0x00 \<notin> set tag" using nul(2) by (simp add: tag_def)
  have needle: "takeWhile (\<lambda>c. c \<noteq> CHR 0x00) (tag @ [CHR 0x00]) = tag"
    using takeWhile_no_nul [OF tnul, of "[CHR 0x00]"] by simp
  have hay: "takeWhile (\<lambda>c. c \<noteq> CHR 0x00) (body @ tag @ rest)
      = body @ tag @ takeWhile (\<lambda>c. c \<noteq> CHR 0x00) rest"
    using takeWhile_no_nul [OF nul(1), of "tag @ rest"] takeWhile_no_nul [OF tnul, of rest]
    by simp
  have "\<forall>j<length body. take (length tag)
      (drop j (body @ tag @ takeWhile (\<lambda>c. c \<noteq> CHR 0x00) rest)) \<noteq> tag"
  proof (intro allI impI)
    fix j assume j: "j < length body"
    then have "take (length tag) (drop j (body @ tag @ takeWhile (\<lambda>c. c \<noteq> CHR 0x00) rest))
        = take (length tag) (drop j (body @ tag))"
      by simp
    with first j show "take (length tag)
        (drop j (body @ tag @ takeWhile (\<lambda>c. c \<noteq> CHR 0x00) rest)) \<noteq> tag"
      by (simp add: tag_def)
  qed
  from find_first_at [OF this] have "strstr (body @ tag @ rest) (tag @ [CHR 0x00]) = Some (length body)"
    unfolding strstr_def hay needle .
  then show ?thesis by (simp add: tag_def)
qed

definition example_parser :: "string \<Rightarrow> unit aws_xml_parser" where
  "example_parser document =
     \<lparr>doc = document, cb_stack = [], split_scratch_size = 11, attributes_size = 10\<rparr>"

definition example_long_name :: string where
  "example_long_name = replicate 257 (CHR ''n'')"

definition example_long_node :: aws_xml_node where
  "example_long_node =
     \<lparr>node_name = example_long_name, node_attributes = [],
      doc_at_body = ''text</'' @ example_long_name @ ''>''  @ ''</a>''\<rparr>"

text \<open>
  C9, as stated, fails: a name of 257 bytes is within 260 bytes and its closing tag is
  present, and body extraction fails all the same, because the closing tag with a
  terminating NUL byte has to fit the 260 bytes of \<open>name_close\<close>.
\<close>

theorem node_as_body_limit_counterexample:
  "length (node_name example_long_node) = 257 \<and>
   aws_xml_node_as_body (example_parser (doc_at_body example_long_node)) example_long_node
   = (AWS_OP_ERR AWS_ERROR_MALFORMED_INPUT_STRING,
      example_parser (doc_at_body example_long_node), None)"
  by (simp add: aws_xml_node_as_body_def s_advance_to_closing_tag_def example_long_node_def
      example_long_name_def Let_def)

text \<open>
  C9, amended. Body extraction fails with the malformed-input error whenever the name of
  the node is longer than 256 bytes, whether or not a closing tag exists. For a name of
  at most 256 bytes (without NUL byte) whose closing tag follows a body (without NUL
  byte) in which that tag does not begin earlier, and with at least four bytes more than
  the name from the start of the body to the end of the document, it returns the span
  from the start of the body to the start of the closing tag and asks the cursor to move
  by the length of that span and of the closing tag.
\<close>

theorem node_as_body_limit:
  fixes parser :: "'cb aws_xml_parser"
  shows "(length (node_name node) > 256
          \<longrightarrow> aws_xml_node_as_body parser node
                = (AWS_OP_ERR AWS_ERROR_MALFORMED_INPUT_STRING, parser, None)) \<and>
         (length (node_name node) \<le> 256 \<and>
          doc_at_body node = body @ ''</'' @ node_name node @ ''>'' @ rest \<and>
          length (node_name node) + 4 \<le> length (doc_at_body node) \<and>
          CHR 0x00 \<notin> set body \<and> CHR 0x00 \<notin> set (node_name node) \<and>
          (\<forall>j<length body. take (length (''</'' @ node_name node @ ''>''))
                (drop j (body @ ''</'' @ node_name node @ ''>'')) \<noteq> ''</'' @ node_name node @ ''>'')
          \<longrightarrow> aws_xml_node_as_body parser node
                = (AWS_OP_SUCCESS,
                   parser\<lparr>doc := aws_byte_cursor_advance (doc parser)
                                    (length body + length (node_name node) + 3)\<rparr>,
                   Some body))"
proof (intro conjI impI)
  assume "length (node_name node) > 256"
  then show "aws_xml_node_as_body parser node
      = (AWS_OP_ERR AWS_ERROR_MALFORMED_INPUT_STRING, parser, None)"
    by (simp add: aws_xml_node_as_body_def s_advance_to_closing_tag_def Let_def)
next
  assume a: "length (node_name node) \<le> 256 \<and>
      doc_at_body node = body @ ''</'' @ node_name node @ ''>'' @ rest \<and>
      length (node_name node) + 4 \<le> length (doc_at_body node) \<and>
      CHR 0x00 \<notin> set body \<and> CHR 0x00 \<notin> set (node_name node) \<and>
      (\<forall>j<length body. take (length (''</'' @ node_name node @ ''>''))
            (drop j (body @ ''</'' @ node_name node @ ''>'')) \<noteq> ''</'' @ node_name node @ ''>'')"
  then have n: "length (node_name node) \<le> 256"
    and d: "doc_at_body node = body @ ''</'' @ node_name node @ ''>'' @ rest"
    and len: "length (node_name node) + 4 \<le> length (doc_at_body node)"
    and nul: "CHR 0x00 \<notin> set body" "CHR 0x00 \<notin> set (node_name node)"
    and first: "\<forall>j<length body. take (length (''</'' @ node_name node @ ''>''))
            (drop j (body @ ''</'' @ node_name node @ ''>'')) \<noteq> ''</'' @ node_name node @ ''>''"
    by blast+
  have found: "strstr (doc_at_body node) (''</'' @ node_name node @ ''>'' @ [CHR 0x00])
      = Some (length body)"
    unfolding d by (rule strstr_closing_tag [OF nul first])
  have span: "take (length body) (doc_at_body node) = body"
    by (simp add: d)
  have amount: "length body + length (''</'' @ node_name node @ ''>'' @ [CHR 0x00]) - 1
      = length body + length (node_name node) + 3"
    by simp
  have fits: "\<not> length (node_name node) + 4 > length (doc_at_body node)"
    using len by (simp only: not_less)
  have short: "\<not> (260::nat) < length (node_name node) + 4"
    using n by simp
  show "aws_xml_node_as_body parser node
      = (AWS_OP_SUCCESS,
         parser\<lparr>doc := aws_byte_cursor_advance (doc parser)
                          (length body + length (node_name node) + 3)\<rparr>,
         Some body)"
    unfolding aws_xml_node_as_body_def s_advance_to_closing_tag_def Let_def
    by (simp only: fits short if_False found option.case span amount)
qed

theorem node_as_body_limit_witness:
  "aws_xml_node_as_body (example_parser ''text</b></a>'')
     \<lparr>node_name = ''b'', node_attributes = [], doc_at_body = ''text</b></a>''\<rparr>
   = (AWS_OP_SUCCESS, example_parser ''</a>'', Some ''text'') \<and>
   aws_xml_node_as_body (example_parser (doc_at_body example_long_node)) example_long_node
   = (AWS_OP_ERR AWS_ERROR_MALFORMED_INPUT_STRING,
      example_parser (doc_at_body example_long_node), None)"
  using node_as_body_limit [where parser = "example_parser ''text</b></a>''"
      and node = "\<lparr>node_name = ''b'', node_attributes = [], doc_at_body = ''text</b></a>''\<rparr>"
      and body = "''text''" and rest = "''</a>''"]
    node_as_body_limit [where parser = "example_parser (doc_at_body example_long_node)"
      and node = example_long_node]
  by (simp add: example_parser_def example_long_node_def example_long_name_def
      aws_byte_cursor_advance_def SIZE_MAX_def All_less_Suc)

lemma memchr_None: "memchr xs c = None \<longleftrightarrow> c \<notin> set xs"
  by (induction xs) auto

lemma memchr_Some_ex: "c \<in> set xs \<Longrightarrow> \<exists>i. memchr xs c = Some i"
  by (cases "memchr xs c") (simp_all add: memchr_None)

lemma memchr_append_first:
  "c \<notin> set xs \<Longrightarrow> memchr (xs @ c # ys) c = Some (length xs)"
  by (induction xs) auto

lemma skip_preamble_empty: "s_skip_preamble [] = Some (AWS_OP_SUCCESS, [])"
  by (subst s_skip_preamble.simps) simp

lemma skip_preamble_no_open:
  "document \<noteq> [] \<Longrightarrow> CHR ''<'' \<notin> set document \<Longrightarrow>
   s_skip_preamble document = Some (AWS_OP_ERR AWS_ERROR_MALFORMED_INPUT_STRING, document)"
  by (subst s_skip_preamble.simps) (simp add: memchr_None [THEN iffD2])

lemma skip_preamble_no_close:
  assumes "CHR ''<'' \<in> set document" "CHR ''>'' \<notin> set document"
  shows "s_skip_preamble document = Some (AWS_OP_ERR AWS_ERROR_MALFORMED_INPUT_STRING, document)"
proof -
  from assms(1) obtain i where "memchr document (CHR ''<'') = Some i"
    using memchr_Some_ex by blast
  moreover from assms(2) have "memchr document (CHR ''>'') = None"
    by (simp add: memchr_None)
  moreover from assms(1) have "document \<noteq> []" by auto
  ultimately show ?thesis
    by (subst s_skip_preamble.simps) simp
qed

lemma skip_preamble_statement:
  assumes "CHR ''>'' \<notin> set body" "length body + 3 \<le> SIZE_MAX div 2"
  shows "s_skip_preamble (''<?'' @ body @ ''>'') = Some (AWS_OP_SUCCESS, [])"
proof -
  define d where "d = ''<?'' @ body @ ''>''"
  have lt: "memchr d (CHR ''<'') = Some 0"
    by (simp add: d_def)
  have gt: "memchr d (CHR ''>'') = Some (length body + 2)"
    using memchr_append_first [of "CHR ''>''" "''<?'' @ body" "[]"] assms(1)
    by (simp add: d_def)
  have len: "length d = length body + 3"
    by (simp add: d_def)
  have mark: "byte_at d (Suc 0) = CHR ''?''"
    by (simp add: d_def byte_at_def)
  have diff: "size_t_diff (Suc (Suc (Suc (length body)))) 0 = length body + 3"
    using assms(2) by (simp add: size_t_diff_def SIZE_MAX_def nat_mod_distrib)
  have start: "aws_byte_cursor_advance d 0 = d"
    by (simp add: aws_byte_cursor_advance_def)
  have all: "aws_byte_cursor_advance d (length body + 3) = []"
    using assms(2) by (simp add: aws_byte_cursor_advance_def len)
  have "s_skip_preamble d = Some (AWS_OP_SUCCESS, [])"
    by (subst s_skip_preamble.simps)
      (simp add: lt gt len mark diff start all Let_def skip_preamble_empty)
  then show ?thesis by (simp only: d_def)
qed


lemma advance_subset: "set (aws_byte_cursor_advance cursor n) \<subseteq> set cursor"
  by (auto simp: aws_byte_cursor_advance_def dest: in_set_dropD)

lemma node_next_sibling_no_close:
  assumes "CHR ''<'' \<in> set (doc parser)" "CHR ''>'' \<notin> set (doc parser)"
  shows "fst (s_node_next_sibling invoke parser u) = AWS_OP_ERR AWS_ERROR_MALFORMED_INPUT_STRING"
proof -
  from assms(1) obtain i where i: "memchr (doc parser) (CHR ''<'') = Some i"
    using memchr_Some_ex by blast
  from assms(2) advance_subset [of "doc parser" i]
  have "memchr (aws_byte_cursor_advance (doc parser) i) (CHR ''>'') = None"
    by (auto simp: memchr_None)
  with i show ?thesis
    by (simp add: s_node_next_sibling_def Let_def)
qed

lemma take_takeWhile_drop:
  assumes "take n (drop j (takeWhile P xs)) = ys" "length ys = n"
  shows "take n (drop j xs) = ys"
proof -
  have "xs = takeWhile P xs @ dropWhile P xs" by simp
  then have "drop j xs = drop j (takeWhile P xs) @ drop (j - length (takeWhile P xs)) (dropWhile P xs)"
    by (metis drop_append)
  moreover from assms have "n \<le> length (drop j (takeWhile P xs))"
    by (metis length_take min.cobounded2 min.commute)
  ultimately show ?thesis using assms(1) by simp
qed

lemma strstr_closing_tag_absent:
  assumes nul: "CHR 0x00 \<notin> set name"
    and absent: "\<forall>j<length hay. take (length name + 3) (drop j hay) \<noteq> ''</'' @ name @ ''>''"
  shows "strstr hay (''</'' @ name @ ''>'' @ [CHR 0x00]) = None"
proof -
  define tag where "tag = ''</'' @ name @ ''>''"
  have tnul: "CHR 0x00 \<notin> set tag" using nul by (simp add: tag_def)
  have len: "length tag = length name + 3" by (simp add: tag_def)
  have ne: "tag \<noteq> []" by (simp add: tag_def)
  have needle: "takeWhile (\<lambda>c. c \<noteq> CHR 0x00) (tag @ [CHR 0x00]) = tag"
    using takeWhile_no_nul [OF tnul, of "[CHR 0x00]"] by simp
  have "\<forall>j. take (length tag) (drop j (takeWhile (\<lambda>c. c \<noteq> CHR 0x00) hay)) \<noteq> tag"
  proof (intro allI notI)
    fix j assume "take (length tag) (drop j (takeWhile (\<lambda>c. c \<noteq> CHR 0x00) hay)) = tag"
    then have eq: "take (length tag) (drop j hay) = tag"
      by (rule take_takeWhile_drop) simp
    with ne have "j < length hay" by (cases "j < length hay") auto
    with absent have "take (length name + 3) (drop j hay) \<noteq> tag"
      unfolding tag_def by blast
    with eq show False unfolding len by blast
  qed
  from find_first_absent [OF this] have "strstr hay (tag @ [CHR 0x00]) = None"
    unfolding strstr_def needle .
  then show ?thesis by (simp add: tag_def)
qed

lemma advance_to_closing_tag_absent:
  assumes "strstr (doc_at_body node) (''</'' @ node_name node @ ''>'' @ [CHR 0x00]) = None"
  shows "s_advance_to_closing_tag parser node
         = (AWS_OP_ERR AWS_ERROR_MALFORMED_INPUT_STRING, parser, None)"
  unfolding s_advance_to_closing_tag_def Let_def
  by (simp only: assms option.case if_cancel)

lemma traverse_no_bracket:
  assumes "CHR ''<'' \<notin> set (doc parser) \<or> CHR ''>'' \<notin> set (doc parser)"
  shows "s_traverse_loop invoke node cb parser u
         = Some (AWS_OP_ERR AWS_ERROR_MALFORMED_INPUT_STRING, parser, u)"
proof (cases "memchr (doc parser) (CHR ''<'')")
  case None
  then show ?thesis by (subst s_traverse_loop.simps) simp
next
  case (Some i)
  then have "CHR ''<'' \<in> set (doc parser)"
    using memchr_None [of "doc parser" "CHR ''<''"] by auto
  with assms have "memchr (doc parser) (CHR ''>'') = None"
    by (simp add: memchr_None)
  with Some show ?thesis by (subst s_traverse_loop.simps) simp
qed

lemma parse_no_node:
  assumes "s_skip_preamble (doc parser) = Some (AWS_OP_SUCCESS, [])"
  shows "aws_xml_parser_parse invoke parser cb u
         = Some (AWS_OP_SUCCESS, parser\<lparr>doc := [], cb_stack := cb_stack parser @ [cb]\<rparr>, u)"
  by (simp add: aws_xml_parser_parse_def assms s_node_next_sibling_def)

lemma parse_preamble_error:
  assumes "s_skip_preamble (doc parser)
           = Some (AWS_OP_ERR AWS_ERROR_MALFORMED_INPUT_STRING, doc parser)"
  shows "aws_xml_parser_parse invoke parser cb u
         = Some (AWS_OP_ERR AWS_ERROR_MALFORMED_INPUT_STRING, parser, u)"
  by (simp add: aws_xml_parser_parse_def assms)

text \<open>A callback that records the name of the node it is given and leaves the parser alone.\<close>

definition record_name :: "(unit, string list) xml_invoke" where
  "record_name cb parser node names = (parser, names @ [node_name node])"

text \<open>
  A callback that reads the body of the node it is given, which moves the cursor past the
  closing tag of that node, and records the name and the body.
\<close>

definition record_body :: "(unit, (string \<times> string option) list) xml_invoke" where
  "record_body cb parser node bodies =
     (case aws_xml_node_as_body parser node of
        (_, parser1, body) \<Rightarrow> (parser1, bodies @ [(node_name node, body)]))"

text \<open>A callback that records the cursor and the node it is given.\<close>

definition record_node :: "(unit, (string \<times> aws_xml_node) list) xml_invoke" where
  "record_node cb parser node nodes = (parser, nodes @ [(doc parser, node)])"

definition example_node :: "string \<Rightarrow> string \<Rightarrow> aws_xml_node" where
  "example_node name body = \<lparr>node_name = name, node_attributes = [], doc_at_body = body\<rparr>"

lemmas xml_eval = example_parser_def example_node_def record_name_def record_body_def
  record_node_def aws_xml_parser_parse_def aws_xml_node_traverse_def s_node_next_sibling_def
  s_advance_to_closing_tag_def aws_xml_node_as_body_def s_load_node_decl_def
  aws_byte_cursor_advance_def SIZE_MAX_def byte_at_def size_t_diff_def strstr_def Let_def

text \<open>
  C8. After the callback of a child, \<open>aws_xml_node_traverse\<close> calls
  \<open>s_advance_to_closing_tag\<close> with the node whose children it traverses, not with the
  child: the cursor is asked to move by the offset of the closing tag of the parent in the
  body of the parent, plus the length of that tag. The document \<open><a><b>x</b><c>y</c></a>\<close>
  is parsed into the node \<open>a\<close> with the cursor at its body. Traversing \<open>a\<close> with a
  callback that only records names, the move by 20 bytes exceeds the 17 bytes left, the
  cursor stays after \<open><b>\<close>, the traversal stops at \<open></b>\<close>, and \<open>c\<close> is never
  delivered. Traversing \<open>a\<close> in \<open><b>x</b></a><c>yyyyy</c><d>z</d></r>\<close> with a callback
  that reads the body of each child, the cursor stands at \<open></a>\<close> after the callback of
  \<open>b\<close> and is then moved by 12 bytes, past \<open></a>\<close> and \<open><c>yyyyy\<close>: the traversal stops
  at \<open></c>\<close>, outside \<open>a\<close>.
\<close>

theorem traverse_advances_by_parent_tag:
  "aws_xml_parser_parse record_node (example_parser ''<a><b>x</b><c>y</c></a>'') () []
   = Some (AWS_OP_SUCCESS, (example_parser ''<b>x</b><c>y</c></a>'')\<lparr>cb_stack := [()]\<rparr>,
           [(''<b>x</b><c>y</c></a>'', example_node ''a'' ''<b>x</b><c>y</c></a>'')]) \<and>
   aws_xml_node_traverse record_name
     ((example_parser ''<b>x</b><c>y</c></a>'')\<lparr>cb_stack := [()]\<rparr>)
     (example_node ''a'' ''<b>x</b><c>y</c></a>'') () []
   = Some (AWS_OP_SUCCESS, (example_parser ''<c>y</c></a>'')\<lparr>cb_stack := [()]\<rparr>, [''b'']) \<and>
   aws_xml_node_traverse record_body
     ((example_parser ''<b>x</b></a><c>yyyyy</c><d>z</d></r>'')\<lparr>cb_stack := [()]\<rparr>)
     (example_node ''a'' ''<b>x</b></a><c>yyyyy</c><d>z</d></r>'') () []
   = Some (AWS_OP_SUCCESS, (example_parser ''<d>z</d></r>'')\<lparr>cb_stack := [()]\<rparr>,
           [(''b'', Some ''x'')])"
  by (simp add: xml_eval s_skip_preamble.simps s_traverse_loop.simps)

text \<open>
  C7. The document \<open>a><b\<close> has a \<open><\<close> with no \<open>>\<close> after it. The preamble loop of
  \<open>aws_xml_parser_parse\<close> finds both bytes in the document, moves to \<open><\<close> and is left;
  \<open>s_node_next_sibling\<close> then finds no \<open>>\<close> and raises the malformed-input error, and
  \<open>aws_xml_parser_parse\<close>, which does not look at that status, returns success, the
  callback not called. Likewise the children \<open><b>x</b>\<close> of a node \<open>a\<close> are not followed
  by the closing tag of \<open>a\<close>: \<open>s_advance_to_closing_tag\<close> raises the malformed-input error
  for \<open>a\<close>, and \<open>aws_xml_node_traverse\<close>, which does not look at that status either,
  returns success.
\<close>

theorem parse_discards_malformed_status:
  "s_node_next_sibling record_name ((example_parser ''<b'')\<lparr>cb_stack := [()]\<rparr>) []
   = (AWS_OP_ERR AWS_ERROR_MALFORMED_INPUT_STRING,
      (example_parser ''<b'')\<lparr>cb_stack := [()]\<rparr>, []) \<and>
   aws_xml_parser_parse record_name (example_parser ''a><b'') () []
   = Some (AWS_OP_SUCCESS, (example_parser ''<b'')\<lparr>cb_stack := [()]\<rparr>, []) \<and>
   s_advance_to_closing_tag ((example_parser ''x</b>'')\<lparr>cb_stack := [()]\<rparr>)
     (example_node ''a'' ''<b>x</b>'')
   = (AWS_OP_ERR AWS_ERROR_MALFORMED_INPUT_STRING,
      (example_parser ''x</b>'')\<lparr>cb_stack := [()]\<rparr>, None) \<and>
   aws_xml_node_traverse record_name (example_parser ''<b>x</b>'')
     (example_node ''a'' ''<b>x</b>'') () []
   = Some (AWS_OP_SUCCESS, example_parser [], [''b''])"
  by (simp add: xml_eval s_skip_preamble.simps s_traverse_loop.simps)

section \<open>Merging on an explicit store\<close>

text \<open>
  The merge functions once more, now with the memory they work on, to see which objects a
  merge writes. A store is the list of the cells handed out so far; an address is an index
  into it. A cell holds an \<open>aws_string\<close>, an \<open>aws_profile_property\<close>, an \<open>aws_profile\<close>
  or an \<open>aws_profile_collection\<close>, or nothing once it is released. Pointer fields hold
  an address or \<open>NULL\<close> (\<open>None\<close>), and a hash table, which is part of its struct, is the
  list of its entries, each a pair of the address of the key and the address of the value.
  Every function returns \<open>None\<close> when it reads, writes or releases an address that is not
  a live cell of the expected kind, which is undefined behaviour in the source. As in the
  first model, memory allocation is taken to succeed and log output is left out.
\<close>

text \<open>Modelled from the spec: the allocator (\<open>aws_mem_acquire\<close>, \<open>aws_mem_release\<close>) and
  \<open>aws_string\<close> belong to the common runtime (aws-c-common), which is not part of the
  sources. Acquiring memory appends a cell and gives its address, which was never given
  out before; releasing empties the cell. A new string is a new cell with a copy of the
  bytes; \<open>aws_string_destroy\<close> releases the cell and does nothing on \<open>NULL\<close>.\<close>

type_synonym addr = nat

datatype heap_object =
    String_object string
  | Property_object "addr option" "addr option" bool "(addr \<times> addr) list"
  | Profile_object "addr option" bool "(addr \<times> addr) list"
  | Collection_object aws_profile_source_type "(addr \<times> addr) list"

type_synonym heap = "heap_object option list"

definition load :: "heap \<Rightarrow> addr \<Rightarrow> heap_object option" where
  "load h a = (if a < length h then h ! a else None)"

definition aws_mem_acquire :: "heap \<Rightarrow> heap_object \<Rightarrow> addr \<times> heap" where
  "aws_mem_acquire h object = (length h, h @ [Some object])"

definition aws_mem_release :: "heap \<Rightarrow> addr \<Rightarrow> heap option" where
  "aws_mem_release h a = (case load h a of None \<Rightarrow> None | Some _ \<Rightarrow> Some (h[a := None]))"

definition store_object :: "heap \<Rightarrow> addr \<Rightarrow> heap_object \<Rightarrow> heap option" where
  "store_object h a object =
     (case load h a of None \<Rightarrow> None | Some _ \<Rightarrow> Some (h[a := Some object]))"

definition load_string :: "heap \<Rightarrow> addr \<Rightarrow> string option" where
  "load_string h a = (case load h a of Some (String_object s) \<Rightarrow> Some s | _ \<Rightarrow> None)"

definition load_property ::
    "heap \<Rightarrow> addr \<Rightarrow> (addr option \<times> addr option \<times> bool \<times> (addr \<times> addr) list) option" where
  "load_property h a =
     (case load h a of
        Some (Property_object name val empty_valued subs) \<Rightarrow> Some (name, val, empty_valued, subs)
      | _ \<Rightarrow> None)"

definition load_profile ::
    "heap \<Rightarrow> addr \<Rightarrow> (addr option \<times> bool \<times> (addr \<times> addr) list) option" where
  "load_profile h a =
     (case load h a of
        Some (Profile_object name has_prefix props) \<Rightarrow> Some (name, has_prefix, props)
      | _ \<Rightarrow> None)"

definition load_collection ::
    "heap \<Rightarrow> addr \<Rightarrow> (aws_profile_source_type \<times> (addr \<times> addr) list) option" where
  "load_collection h a =
     (case load h a of
        Some (Collection_object source profs) \<Rightarrow> Some (source, profs)
      | _ \<Rightarrow> None)"

definition aws_string_new_from_array :: "heap \<Rightarrow> string \<Rightarrow> addr \<times> heap" where
  "aws_string_new_from_array h bytes = aws_mem_acquire h (String_object bytes)"

definition aws_string_new_from_string :: "heap \<Rightarrow> addr \<Rightarrow> (addr \<times> heap) option" where
  "aws_string_new_from_string h source =
     (case load_string h source of
        None \<Rightarrow> None
      | Some bytes \<Rightarrow> Some (aws_string_new_from_array h bytes))"

definition aws_string_destroy :: "heap \<Rightarrow> addr option \<Rightarrow> heap option" where
  "aws_string_destroy h str =
     (case str of
        None \<Rightarrow> Some h
      | Some a \<Rightarrow> (case load_string h a of None \<Rightarrow> None | Some _ \<Rightarrow> aws_mem_release h a))"

definition aws_hash_callback_string_destroy :: "heap \<Rightarrow> addr \<Rightarrow> heap option" where
  "aws_hash_callback_string_destroy h a = aws_string_destroy h (Some a)"

text \<open>Modelled from the spec: \<open>aws_hash_table\<close> belongs to the same runtime. The tables
  of the module compare keys by the bytes of the strings. A lookup takes the bytes of the
  key it is given; \<open>aws_hash_table_put\<close> on a key that the table holds destroys the old
  key, unless it is the very string given, and the old value; \<open>aws_hash_table_remove\<close>,
  called without a place for the removed element, destroys key and value of the entry;
  \<open>aws_hash_table_clean_up\<close> destroys every key and value. The two destroy functions
  are those the table was initialised with.\<close>

fun aws_hash_table_find_store ::
    "heap \<Rightarrow> (addr \<times> addr) list \<Rightarrow> string \<Rightarrow> (addr \<times> addr) option option" where
  "aws_hash_table_find_store h [] key = Some None"
| "aws_hash_table_find_store h (entry # table) key =
     (case load_string h (fst entry) of
        None \<Rightarrow> None
      | Some bytes \<Rightarrow>
          if bytes = key then Some (Some entry) else aws_hash_table_find_store h table key)"

definition aws_hash_table_put_store ::
    "(heap \<Rightarrow> addr \<Rightarrow> heap option) \<Rightarrow> (heap \<Rightarrow> addr \<Rightarrow> heap option) \<Rightarrow>
     heap \<Rightarrow> (addr \<times> addr) list \<Rightarrow> addr \<Rightarrow> addr \<Rightarrow> ((addr \<times> addr) list \<times> heap) option" where
  "aws_hash_table_put_store destroy_key_fn destroy_value_fn h table key val =
     do {
       bytes \<leftarrow> load_string h key;
       found \<leftarrow> aws_hash_table_find_store h table bytes;
       case found of
         None \<Rightarrow> Some (table @ [(key, val)], h)
       | Some elem \<Rightarrow>
           do {
             h1 \<leftarrow> (if fst elem \<noteq> key then destroy_key_fn h (fst elem) else Some h);
             h2 \<leftarrow> destroy_value_fn h1 (snd elem);
             Some (remove1 elem table @ [(key, val)], h2)
           }
     }"

definition aws_hash_table_remove_store ::
    "(heap \<Rightarrow> addr \<Rightarrow> heap option) \<Rightarrow> (heap \<Rightarrow> addr \<Rightarrow> heap option) \<Rightarrow>
     heap \<Rightarrow> (addr \<times> addr) list \<Rightarrow> addr \<Rightarrow> ((addr \<times> addr) list \<times> heap \<times> bool) option" where
  "aws_hash_table_remove_store destroy_key_fn destroy_value_fn h table key =
     do {
       bytes \<leftarrow> load_string h key;
       found \<leftarrow> aws_hash_table_find_store h table bytes;
       case found of
         None \<Rightarrow> Some (table, h, False)
       | Some elem \<Rightarrow>
           do {
             h1 \<leftarrow> destroy_key_fn h (fst elem);
             h2 \<leftarrow> destroy_value_fn h1 (snd elem);
             Some (remove1 elem table, h2, True)
           }
     }"

definition aws_hash_table_get_entry_count_store :: "(addr \<times> addr) list \<Rightarrow> nat" where
  "aws_hash_table_get_entry_count_store table = length table"

fun aws_hash_table_clean_up_store ::
    "(heap \<Rightarrow> addr \<Rightarrow> heap option) \<Rightarrow> (heap \<Rightarrow> addr \<Rightarrow> heap option) \<Rightarrow>
     heap \<Rightarrow> (addr \<times> addr) list \<Rightarrow> heap option" where
  "aws_hash_table_clean_up_store destroy_key_fn destroy_value_fn h [] = Some h"
| "aws_hash_table_clean_up_store destroy_key_fn destroy_value_fn h (elem # table) =
     do {
       h1 \<leftarrow> destroy_key_fn h (fst elem);
       h2 \<leftarrow> destroy_value_fn h1 (snd elem);
       aws_hash_table_clean_up_store destroy_key_fn destroy_value_fn h2 table
     }"

definition s_profile_property_destroy_store :: "heap \<Rightarrow> addr \<Rightarrow> heap option" where
  "s_profile_property_destroy_store h property =
     do {
       (name, val, empty_valued, subs) \<leftarrow> load_property h property;
       h1 \<leftarrow> aws_string_destroy h name;
       h2 \<leftarrow> aws_string_destroy h1 val;
       h3 \<leftarrow> aws_hash_table_clean_up_store
               aws_hash_callback_string_destroy aws_hash_callback_string_destroy h2 subs;
       aws_mem_release h3 property
     }"

definition aws_profile_destroy_store :: "heap \<Rightarrow> addr \<Rightarrow> heap option" where
  "aws_profile_destroy_store h profile =
     do {
       (name, has_prefix, props) \<leftarrow> load_profile h profile;
       h1 \<leftarrow> aws_string_destroy h name;
       h2 \<leftarrow> aws_hash_table_clean_up_store
               aws_hash_callback_string_destroy s_profile_property_destroy_store h1 props;
       aws_mem_release h2 profile
     }"

text \<open>
  The constructors acquire the struct, zeroed, then the strings, and fill the struct in.
\<close>

definition aws_profile_property_new_store :: "heap \<Rightarrow> string \<Rightarrow> string \<Rightarrow> addr \<times> heap" where
  "aws_profile_property_new_store h name val =
     (let (property, h1) = aws_mem_acquire h (Property_object None None False []);
          (value_string, h2) = aws_string_new_from_array h1 val;
          (name_string, h3) = aws_string_new_from_array h2 name
      in (property,
          h3[property := Some (Property_object (Some name_string) (Some value_string)
                                 (length val = 0) [])]))"

definition aws_profile_new_store :: "heap \<Rightarrow> string \<Rightarrow> bool \<Rightarrow> addr \<times> heap" where
  "aws_profile_new_store h name has_prefix =
     (let (profile, h1) = aws_mem_acquire h (Profile_object None False []);
          (name_string, h2) = aws_string_new_from_array h1 name
      in (profile, h2[profile := Some (Profile_object (Some name_string) has_prefix [])]))"

text \<open>
  The merge functions. Each loop runs over the entries that the source table holds when
  the loop starts.
\<close>

fun fold_option :: "('a \<Rightarrow> 's \<Rightarrow> 's option) \<Rightarrow> 'a list \<Rightarrow> 's \<Rightarrow> 's option" where
  "fold_option f [] s = Some s"
| "fold_option f (x # xs) s = (case f x s of None \<Rightarrow> None | Some s1 \<Rightarrow> fold_option f xs s1)"

definition s_profile_property_merge_iter_store :: "addr \<Rightarrow> addr \<times> addr \<Rightarrow> heap \<Rightarrow> heap option" where
  "s_profile_property_merge_iter_store dest elem h =
     do {
       (dest_key, h1) \<leftarrow> aws_string_new_from_string h (fst elem);
       (dest_sub_property, h2) \<leftarrow> aws_string_new_from_string h1 (snd elem);
       (name, val, empty_valued, subs) \<leftarrow> load_property h2 dest;
       (subs1, h3, was_present) \<leftarrow> aws_hash_table_remove_store
          aws_hash_callback_string_destroy aws_hash_callback_string_destroy h2 subs dest_key;
       (subs2, h4) \<leftarrow> aws_hash_table_put_store
          aws_hash_callback_string_destroy aws_hash_callback_string_destroy
          h3 subs1 dest_key dest_sub_property;
       store_object h4 dest (Property_object name val empty_valued subs2)
     }"

definition s_profile_property_merge_store :: "heap \<Rightarrow> addr \<Rightarrow> addr \<Rightarrow> heap option" where
  "s_profile_property_merge_store h dest source =
     do {
       (source_name, source_value, source_empty_valued, source_subs) \<leftarrow> load_property h source;
       h3 \<leftarrow> (case source_value of
                None \<Rightarrow> Some h
              | Some v \<Rightarrow>
                  do {
                    (new_value, h1) \<leftarrow> aws_string_new_from_string h v;
                    (name, val, empty_valued, subs) \<leftarrow> load_property h1 dest;
                    h2 \<leftarrow> aws_string_destroy h1 val;
                    store_object h2 dest (Property_object name (Some new_value) empty_valued subs)
                  });
       (name, val, empty_valued, subs) \<leftarrow> load_property h3 dest;
       h4 \<leftarrow> store_object h3 dest (Property_object name val source_empty_valued subs);
       fold_option (s_profile_property_merge_iter_store dest) source_subs h4
     }"

definition s_profile_merge_iter_store :: "addr \<Rightarrow> addr \<times> addr \<Rightarrow> heap \<Rightarrow> heap option" where
  "s_profile_merge_iter_store dest_profile elem h =
     do {
       key \<leftarrow> load_string h (fst elem);
       (name, has_prefix, props) \<leftarrow> load_profile h dest_profile;
       found \<leftarrow> aws_hash_table_find_store h props key;
       (dest_property, h5) \<leftarrow>
         (case found of
            Some dest_elem \<Rightarrow> Some (snd dest_elem, h)
          | None \<Rightarrow>
              do {
                (dest_key, h1) \<leftarrow> aws_string_new_from_string h (fst elem);
                property_name \<leftarrow> load_string h1 dest_key;
                (dest_property, h2) \<leftarrow> Some (aws_profile_property_new_store h1 property_name []);
                (props1, h3) \<leftarrow> aws_hash_table_put_store
                   aws_hash_callback_string_destroy s_profile_property_destroy_store
                   h2 props dest_key dest_property;
                h4 \<leftarrow> store_object h3 dest_profile (Profile_object name has_prefix props1);
                Some (dest_property, h4)
              });
       s_profile_property_merge_store h5 dest_property (snd elem)
     }"

definition s_profile_merge_store :: "heap \<Rightarrow> addr \<Rightarrow> addr \<Rightarrow> heap option" where
  "s_profile_merge_store h dest_profile source_profile =
     do {
       (source_name, source_has_prefix, source_props) \<leftarrow> load_profile h source_profile;
       (name, has_prefix, props) \<leftarrow> load_profile h dest_profile;
       h1 \<leftarrow> store_object h dest_profile (Profile_object name source_has_prefix props);
       fold_option (s_profile_merge_iter_store dest_profile) source_props h1
     }"

definition s_profile_collection_merge_iter_store ::
    "addr \<Rightarrow> addr \<times> addr \<Rightarrow> heap \<Rightarrow> heap option" where
  "s_profile_collection_merge_iter_store dest_collection elem h =
     do {
       key \<leftarrow> load_string h (fst elem);
       (source_name, source_has_prefix, source_props) \<leftarrow> load_profile h (snd elem);
       (source, profs) \<leftarrow> load_collection h dest_collection;
       found \<leftarrow> aws_hash_table_find_store h profs key;
       (dest_profile, h5) \<leftarrow>
         (case found of
            Some dest_elem \<Rightarrow> Some (snd dest_elem, h)
          | None \<Rightarrow>
              do {
                (dest_key, h1) \<leftarrow> aws_string_new_from_string h (fst elem);
                name_cursor \<leftarrow> load_string h1 dest_key;
                (dest_profile, h2) \<leftarrow> Some (aws_profile_new_store h1 name_cursor source_has_prefix);
                (profs1, h3) \<leftarrow> aws_hash_table_put_store
                   aws_hash_callback_string_destroy aws_profile_destroy_store
                   h2 profs dest_key dest_profile;
                h4 \<leftarrow> store_object h3 dest_collection (Collection_object source profs1);
                Some (dest_profile, h4)
              });
       s_profile_merge_store h5 dest_profile (snd elem)
     }"

definition s_profile_collection_merge_store :: "heap \<Rightarrow> addr \<Rightarrow> addr \<Rightarrow> heap option" where
  "s_profile_collection_merge_store h dest_collection source_collection =
     do {
       (source, profs) \<leftarrow> load_collection h source_collection;
       fold_option (s_profile_collection_merge_iter_store dest_collection) profs h
     }"

definition aws_profile_collection_new_from_merge_store ::
    "heap \<Rightarrow> addr option \<Rightarrow> addr option \<Rightarrow> (addr \<times> heap) option" where
  "aws_profile_collection_new_from_merge_store h config_profiles credentials_profiles =
     do {
       (merged, h1) \<leftarrow> Some (aws_mem_acquire h (Collection_object AWS_PST_NONE []));
       config_count \<leftarrow> (case config_profiles of
           None \<Rightarrow> Some 0
         | Some config \<Rightarrow> map_option (\<lambda>c. aws_hash_table_get_entry_count_store (snd c))
                           (load_collection h1 config));
       credentials_count \<leftarrow> (case credentials_profiles of
           None \<Rightarrow> Some 0
         | Some credentials \<Rightarrow> map_option (\<lambda>c. aws_hash_table_get_entry_count_store (snd c))
                                (load_collection h1 credentials));
       h2 \<leftarrow> (case config_profiles of
           None \<Rightarrow> Some h1
         | Some config \<Rightarrow> s_profile_collection_merge_store h1 merged config);
       h3 \<leftarrow> (case credentials_profiles of
           None \<Rightarrow> Some h2
         | Some credentials \<Rightarrow> s_profile_collection_merge_store h2 merged credentials);
       Some (merged, h3)
     }"


text \<open>
  A store with a config collection at address 0 and a credentials collection at address
  10. Each has the profile \<open>foo\<close> with the property \<open>region\<close> and one sub-property.
\<close>

definition example_store :: heap where
  "example_store =
     [Some (Collection_object AWS_PST_CONFIG [(1, 2)]),
      Some (String_object ''foo''),
      Some (Profile_object (Some 3) True [(4, 5)]),
      Some (String_object ''foo''),
      Some (String_object ''region''),
      Some (Property_object (Some 6) (Some 7) False [(8, 9)]),
      Some (String_object ''region''),
      Some (String_object ''us-west-2''),
      Some (String_object ''k''),
      Some (String_object ''v''),
      Some (Collection_object AWS_PST_CREDENTIALS [(11, 12)]),
      Some (String_object ''foo''),
      Some (Profile_object (Some 13) False [(14, 15)]),
      Some (String_object ''foo''),
      Some (String_object ''region''),
      Some (Property_object (Some 16) (Some 17) False [(18, 19)]),
      Some (String_object ''region''),
      Some (String_object ''eu-west-1''),
      Some (String_object ''k''),
      Some (String_object ''w'')]"

lemmas store_eval = load_def aws_mem_acquire_def aws_mem_release_def store_object_def
  load_string_def load_property_def load_profile_def load_collection_def
  aws_string_new_from_array_def aws_string_new_from_string_def aws_string_destroy_def
  aws_hash_callback_string_destroy_def aws_hash_table_put_store_def
  aws_hash_table_remove_store_def aws_hash_table_get_entry_count_store_def
  s_profile_property_destroy_store_def aws_profile_destroy_store_def
  aws_profile_property_new_store_def aws_profile_new_store_def
  s_profile_property_merge_iter_store_def s_profile_property_merge_store_def
  s_profile_merge_iter_store_def s_profile_merge_store_def
  s_profile_collection_merge_iter_store_def s_profile_collection_merge_store_def
  aws_profile_collection_new_from_merge_store_def


section \<open>The merge leaves its inputs alone\<close>

text \<open>
  The addresses an object holds, and what kind of object each of them has to lead to.
\<close>

definition opt_refs :: "addr option \<Rightarrow> addr list" where
  "opt_refs p = (case p of None \<Rightarrow> [] | Some a \<Rightarrow> [a])"

definition table_refs :: "(addr \<times> addr) list \<Rightarrow> addr list" where
  "table_refs table = concat (map (\<lambda>elem. [fst elem, snd elem]) table)"

fun refs :: "heap_object \<Rightarrow> addr list" where
  "refs (String_object bytes) = []"
| "refs (Property_object name val empty_valued subs) = opt_refs name @ opt_refs val @ table_refs subs"
| "refs (Profile_object name has_prefix props) = opt_refs name @ table_refs props"
| "refs (Collection_object source profs) = table_refs profs"

fun kind :: "heap_object \<Rightarrow> nat" where
  "kind (String_object bytes) = 0"
| "kind (Property_object name val empty_valued subs) = 1"
| "kind (Profile_object name has_prefix props) = 2"
| "kind (Collection_object source profs) = 3"

definition kind_at :: "heap \<Rightarrow> addr \<Rightarrow> nat option" where
  "kind_at h a = map_option kind (load h a)"

fun well_typed :: "heap \<Rightarrow> heap_object \<Rightarrow> bool" where
  "well_typed h (String_object bytes) = True"
| "well_typed h (Property_object name val empty_valued subs) =
     (\<forall>a\<in>set (opt_refs name @ opt_refs val @ table_refs subs). kind_at h a = Some 0)"
| "well_typed h (Profile_object name has_prefix props) =
     ((\<forall>a\<in>set (opt_refs name) \<union> fst ` set props. kind_at h a = Some 0) \<and>
      (\<forall>a\<in>snd ` set props. kind_at h a = Some 1))"
| "well_typed h (Collection_object source profs) =
     ((\<forall>a\<in>fst ` set profs. kind_at h a = Some 0) \<and>
      (\<forall>a\<in>snd ` set profs. kind_at h a = Some 2))"

text \<open>
  The invariant of a merge that started in a store of \<open>n\<close> cells: every live object at an
  address from \<open>n\<close> on holds each address once, only addresses from \<open>n\<close> on, and only
  addresses of live objects of the expected kind; and no two of these objects hold the
  same address. So the objects the merge has built own their strings and structs, and
  releasing one of them takes nothing away from another or from the store as it was.
\<close>

definition unreferenced :: "nat \<Rightarrow> heap \<Rightarrow> addr \<Rightarrow> bool" where
  "unreferenced n h p = (\<forall>b obj. n \<le> b \<longrightarrow> load h b = Some obj \<longrightarrow> p \<notin> set (refs obj))"

definition heap_wf :: "nat \<Rightarrow> heap \<Rightarrow> bool" where
  "heap_wf n h =
     ((\<forall>b obj. n \<le> b \<longrightarrow> load h b = Some obj \<longrightarrow>
         distinct (refs obj) \<and> (\<forall>p\<in>set (refs obj). n \<le> p) \<and> well_typed h obj) \<and>
      (\<forall>b c obj obj'. n \<le> b \<longrightarrow> n \<le> c \<longrightarrow> b \<noteq> c \<longrightarrow>
         load h b = Some obj \<longrightarrow> load h c = Some obj' \<longrightarrow>
         set (refs obj) \<inter> set (refs obj') = {}))"

definition heap_inv :: "heap \<Rightarrow> heap \<Rightarrow> bool" where
  "heap_inv h0 h = (take (length h0) h = h0 \<and> heap_wf (length h0) h)"

lemma load_append:
  "load (h @ [x]) a = (if a < length h then load h a else if a = length h then x else None)"
  by (auto simp: load_def nth_append)

lemma load_update:
  "load (h[i := x]) a = (if a = i \<and> i < length h then x else load h a)"
  by (auto simp: load_def)

lemma load_update_valid:
  "load h i = Some obj \<Longrightarrow> load (h[i := x]) a = (if a = i then x else load h a)"
  by (auto simp: load_def split: if_splits)

lemma load_Some_less: "load h a = Some obj \<Longrightarrow> a < length h"
  by (auto simp: load_def split: if_splits)

lemma kind_at_Some_less: "kind_at h a = Some k \<Longrightarrow> a < length h"
  by (auto simp: kind_at_def dest: load_Some_less)

lemma kind_at_append: "kind_at h a = Some k \<Longrightarrow> kind_at (h @ [x]) a = Some k"
  by (auto simp: kind_at_def load_append dest: load_Some_less)

lemma well_typed_mono:
  assumes "\<And>a k. kind_at h a = Some k \<Longrightarrow> a \<in> set (refs obj) \<Longrightarrow> kind_at h' a = Some k"
    and "well_typed h obj"
  shows "well_typed h' obj"
  using assms
  by (cases obj) (auto simp: table_refs_def)

lemma heap_wf_initial: "heap_wf (length h) h"
  by (auto simp: heap_wf_def dest: load_Some_less)

lemma heap_inv_initial: "heap_inv h h"
  by (simp add: heap_inv_def heap_wf_initial)

lemma heap_wf_append:
  assumes "heap_wf n h" "refs obj = []" "well_typed h obj"
  shows "heap_wf n (h @ [Some obj])"
  unfolding heap_wf_def
proof (intro conjI allI impI)
  fix b o1 assume b: "n \<le> b" "load (h @ [Some obj]) b = Some o1"
  show "distinct (refs o1)" "\<forall>p\<in>set (refs o1). n \<le> p"
    using assms b by (auto simp: heap_wf_def load_append split: if_splits)
  have "well_typed h o1"
    using assms b by (auto simp: heap_wf_def load_append split: if_splits)
  then show "well_typed (h @ [Some obj]) o1"
    by (rule well_typed_mono [rotated]) (rule kind_at_append)
next
  fix b c o1 o2
  assume "n \<le> b" "n \<le> c" "b \<noteq> c" "load (h @ [Some obj]) b = Some o1"
    "load (h @ [Some obj]) c = Some o2"
  then show "set (refs o1) \<inter> set (refs o2) = {}"
    using assms by (auto simp: heap_wf_def load_append split: if_splits)
qed


lemma kind_at_update_same:
  assumes "load h d = Some obj" "kind obj' = kind obj"
  shows "kind_at (h[d := Some obj']) a = kind_at h a"
  using assms by (auto simp: kind_at_def load_update)

lemma kind_at_release_other: "a \<noteq> x \<Longrightarrow> kind_at (h[x := None]) a = kind_at h a"
  by (simp add: kind_at_def load_update)

lemma well_typed_refs_live:
  "well_typed h obj \<Longrightarrow> a \<in> set (refs obj) \<Longrightarrow> \<exists>k. kind_at h a = Some k"
  by (cases obj) (auto simp: table_refs_def)

lemma heap_wf_update:
  assumes heap_wf: "heap_wf n h" and d: "n \<le> d" "load h d = Some obj" and k: "kind obj' = kind obj"
    and dist: "distinct (refs obj')" and fresh: "\<forall>p\<in>set (refs obj'). n \<le> p"
    and typed: "well_typed h obj'"
    and new: "\<forall>p\<in>set (refs obj') - set (refs obj). unreferenced n h p"
  shows "heap_wf n (h[d := Some obj'])"
  unfolding heap_wf_def
proof (intro conjI allI impI)
  fix b o1 assume b: "n \<le> b" "load (h[d := Some obj']) b = Some o1"
  show "distinct (refs o1)" "\<forall>p\<in>set (refs o1). n \<le> p"
    using heap_wf dist fresh b by (auto simp: heap_wf_def load_update_valid [OF d(2)] split: if_splits)
  have "well_typed h o1"
    using heap_wf typed b by (auto simp: heap_wf_def load_update_valid [OF d(2)] split: if_splits)
  then show "well_typed (h[d := Some obj']) o1"
    by (rule well_typed_mono [rotated]) (simp add: kind_at_update_same [OF d(2) k])
next
  fix b c o1 o2
  assume a: "n \<le> b" "n \<le> c" "b \<noteq> c" "load (h[d := Some obj']) b = Some o1"
    "load (h[d := Some obj']) c = Some o2"
  have one: "set (refs obj') \<inter> set (refs ob) = {}"
    if "n \<le> e" "e \<noteq> d" "load h e = Some ob" for e ob
  proof -
    have "set (refs obj) \<inter> set (refs ob) = {}"
      using heap_wf d that unfolding heap_wf_def by blast
    moreover have "p \<notin> set (refs ob)" if "p \<in> set (refs obj') - set (refs obj)" for p
      using new that \<open>n \<le> e\<close> \<open>load h e = Some ob\<close> unfolding unreferenced_def by blast
    ultimately show ?thesis by blast
  qed
  show "set (refs o1) \<inter> set (refs o2) = {}"
  proof (cases "b = d")
    case True
    with a have "o1 = obj'" "c \<noteq> d" "load h c = Some o2"
      by (auto simp: load_update_valid [OF d(2)] split: if_splits)
    with one [of c o2] a show ?thesis by simp
  next
    case False
    note bd = this
    show ?thesis
    proof (cases "c = d")
      case True
      with a bd have "o2 = obj'" "load h b = Some o1"
        by (auto simp: load_update_valid [OF d(2)] split: if_splits)
      with one [of b o1] a bd show ?thesis by blast
    next
      case False
      with a bd have "load h b = Some o1" "load h c = Some o2"
        by (auto simp: load_update_valid [OF d(2)] split: if_splits)
      with heap_wf a show ?thesis unfolding heap_wf_def by blast
    qed
  qed
qed

lemma heap_wf_release:
  assumes heap_wf: "heap_wf n h" and un: "unreferenced n h x"
  shows "heap_wf n (h[x := None])"
  unfolding heap_wf_def
proof (intro conjI allI impI)
  fix b o1 assume b: "n \<le> b" "load (h[x := None]) b = Some o1"
  then have l: "load h b = Some o1"
    by (auto simp: load_update split: if_splits)
  with heap_wf b show "distinct (refs o1)" "\<forall>p\<in>set (refs o1). n \<le> p"
    by (auto simp: heap_wf_def)
  from heap_wf b l have "well_typed h o1" by (auto simp: heap_wf_def)
  then show "well_typed (h[x := None]) o1"
  proof (rule well_typed_mono [rotated])
    fix a k assume "kind_at h a = Some k" "a \<in> set (refs o1)"
    moreover from un b(1) l \<open>a \<in> set (refs o1)\<close> have "a \<noteq> x"
      unfolding unreferenced_def by blast
    ultimately show "kind_at (h[x := None]) a = Some k"
      by (simp add: kind_at_release_other)
  qed
next
  fix b c o1 o2
  assume "n \<le> b" "n \<le> c" "b \<noteq> c" "load (h[x := None]) b = Some o1"
    "load (h[x := None]) c = Some o2"
  then show "set (refs o1) \<inter> set (refs o2) = {}"
    using heap_wf by (auto simp: heap_wf_def load_update split: if_splits)
qed

lemma unreferenced_fresh:
  assumes "heap_wf n h" "length h \<le> p"
  shows "unreferenced n h p"
  unfolding unreferenced_def
proof (intro allI impI notI)
  fix b obj assume "n \<le> b" "load h b = Some obj" "p \<in> set (refs obj)"
  with assms(1) have "\<exists>k. kind_at h p = Some k"
    unfolding heap_wf_def using well_typed_refs_live by blast
  with assms(2) show False by (auto dest: kind_at_Some_less)
qed

lemma unreferenced_append:
  "unreferenced n h p \<Longrightarrow> p \<notin> set (refs obj) \<Longrightarrow> unreferenced n (h @ [Some obj]) p"
  by (auto simp: unreferenced_def load_append split: if_splits)

lemma unreferenced_update:
  "unreferenced n h p \<Longrightarrow> p \<notin> set (refs obj') \<Longrightarrow> unreferenced n (h[d := Some obj']) p"
  by (auto simp: unreferenced_def load_update split: if_splits)

lemma unreferenced_release:
  "unreferenced n h p \<Longrightarrow> unreferenced n (h[x := None]) p"
  by (auto simp: unreferenced_def load_update split: if_splits)

lemma unreferenced_dropped:
  assumes "heap_wf n h" "n \<le> d" "load h d = Some obj" "x \<in> set (refs obj)" "x \<notin> set (refs obj')"
  shows "unreferenced n (h[d := Some obj']) x"
  unfolding unreferenced_def
proof (intro allI impI)
  fix b o1 assume b: "n \<le> b" "load (h[d := Some obj']) b = Some o1"
  show "x \<notin> set (refs o1)"
  proof (cases "b = d")
    case True
    with b assms(3,5) show ?thesis
      by (auto simp: load_update dest: load_Some_less split: if_splits)
  next
    case False
    with b have "load h b = Some o1" by (auto simp: load_update split: if_splits)
    with assms b(1) False have "set (refs obj) \<inter> set (refs o1) = {}"
      unfolding heap_wf_def by blast
    with assms(4) show ?thesis by blast
  qed
qed


lemma heap_inv_prefix: "heap_inv h0 h \<Longrightarrow> take (length h0) h = h0"
  by (simp add: heap_inv_def)

lemma heap_inv_wf: "heap_inv h0 h \<Longrightarrow> heap_wf (length h0) h"
  by (simp add: heap_inv_def)

lemma heap_inv_length: "heap_inv h0 h \<Longrightarrow> length h0 \<le> length h"
  by (metis heap_inv_def length_take min.cobounded1)

lemma heap_inv_append:
  assumes "heap_inv h0 h" "refs obj = []" "well_typed h obj"
  shows "heap_inv h0 (h @ [Some obj])"
  using assms heap_inv_length [OF assms(1)] by (simp add: heap_inv_def heap_wf_append)

lemma heap_inv_update:
  assumes "heap_inv h0 h" "length h0 \<le> d" "load h d = Some obj" "kind obj' = kind obj"
    "distinct (refs obj')" "\<forall>p\<in>set (refs obj'). length h0 \<le> p" "well_typed h obj'"
    "\<forall>p\<in>set (refs obj') - set (refs obj). unreferenced (length h0) h p"
  shows "heap_inv h0 (h[d := Some obj'])"
  using assms heap_wf_update [of "length h0" h d obj obj'] by (simp add: heap_inv_def)

lemma heap_inv_release:
  assumes "heap_inv h0 h" "length h0 \<le> x" "unreferenced (length h0) h x"
  shows "heap_inv h0 (h[x := None])"
  using assms heap_wf_release [of "length h0" h x] by (simp add: heap_inv_def)

lemma load_prefix:
  assumes "take (length h0) h = h0" "load h0 a = Some obj"
  shows "load h a = Some obj"
proof -
  from assms(2) have a: "a < length h0" by (rule load_Some_less)
  have "length h0 \<le> length h" by (metis assms(1) length_take min.cobounded1)
  moreover have "h ! a = take (length h0) h ! a" using a by simp
  ultimately show ?thesis using assms a by (simp add: load_def)
qed

lemma load_string_prefix:
  "take (length h0) h = h0 \<Longrightarrow> load_string h0 a = Some bytes \<Longrightarrow> load_string h a = Some bytes"
  by (auto simp: load_string_def dest: load_prefix split: option.splits heap_object.splits)

lemma load_string_kind: "(\<exists>bytes. load_string h a = Some bytes) \<longleftrightarrow> kind_at h a = Some 0"
  by (auto simp: load_string_def kind_at_def split: option.splits heap_object.splits)

lemma load_property_kind:
  "(\<exists>r. load_property h a = Some r) \<longleftrightarrow> kind_at h a = Some 1"
  by (auto simp: load_property_def kind_at_def split: option.splits heap_object.splits)

lemma load_profile_kind:
  "(\<exists>r. load_profile h a = Some r) \<longleftrightarrow> kind_at h a = Some 2"
  by (auto simp: load_profile_def kind_at_def split: option.splits heap_object.splits)

lemma load_collection_kind:
  "(\<exists>r. load_collection h a = Some r) \<longleftrightarrow> kind_at h a = Some 3"
  by (auto simp: load_collection_def kind_at_def split: option.splits heap_object.splits)

lemma store_object_live:
  "kind_at h d = Some k \<Longrightarrow> store_object h d obj = Some (h[d := Some obj])"
  by (auto simp: store_object_def kind_at_def split: option.splits)

lemma string_destroy_live:
  "kind_at h a = Some 0 \<Longrightarrow> aws_string_destroy h (Some a) = Some (h[a := None])"
  by (auto simp: aws_string_destroy_def aws_mem_release_def load_string_def kind_at_def
      split: option.splits heap_object.splits)

lemma string_new_from_string:
  "load_string h source = Some bytes \<Longrightarrow>
   aws_string_new_from_string h source = Some (length h, h @ [Some (String_object bytes)])"
  by (simp add: aws_string_new_from_string_def aws_string_new_from_array_def aws_mem_acquire_def)

lemma find_store_cong:
  "(\<forall>elem\<in>set table. load_string h' (fst elem) = load_string h (fst elem)) \<Longrightarrow>
   aws_hash_table_find_store h' table key = aws_hash_table_find_store h table key"
  by (induction table) (auto split: option.splits)

lemma find_store_total:
  "(\<forall>elem\<in>set table. kind_at h (fst elem) = Some 0) \<Longrightarrow>
   \<exists>r. aws_hash_table_find_store h table key = Some r \<and> (\<forall>elem. r = Some elem \<longrightarrow> elem \<in> set table)"
proof (induction table)
  case Nil
  then show ?case by simp
next
  case (Cons e table)
  from Cons.prems have "kind_at h (fst e) = Some 0" by simp
  then obtain bytes where "load_string h (fst e) = Some bytes"
    using load_string_kind by blast
  with Cons show ?case by auto
qed

text \<open>The structs of a store are still there, with their kind, in a later store.\<close>

definition structs_kept :: "heap \<Rightarrow> heap \<Rightarrow> bool" where
  "structs_kept h h' = (\<forall>a k. 0 < k \<longrightarrow> kind_at h a = Some k \<longrightarrow> kind_at h' a = Some k)"

lemma structs_kept_refl: "structs_kept h h"
  by (simp add: structs_kept_def)

lemma structs_kept_trans: "structs_kept h h1 \<Longrightarrow> structs_kept h1 h2 \<Longrightarrow> structs_kept h h2"
  by (simp add: structs_kept_def)

lemma structs_kept_append: "structs_kept h (h @ [x])"
  by (simp add: structs_kept_def kind_at_append)

lemma structs_kept_update:
  "load h d = Some obj \<Longrightarrow> kind obj' = kind obj \<Longrightarrow> structs_kept h (h[d := Some obj'])"
  by (simp add: structs_kept_def kind_at_update_same)

lemma structs_kept_release: "kind_at h x = Some 0 \<Longrightarrow> structs_kept h (h[x := None])"
  by (auto simp: structs_kept_def kind_at_def load_update split: if_splits)


lemma table_refs_append: "table_refs (xs @ ys) = table_refs xs @ table_refs ys"
  by (simp add: table_refs_def)

lemma table_refs_Cons: "table_refs (elem # xs) = fst elem # snd elem # table_refs xs"
  by (simp add: table_refs_def)

lemma table_refs_Nil: "table_refs [] = []"
  by (simp add: table_refs_def)

lemma set_table_refs: "set (table_refs table) = fst ` set table \<union> snd ` set table"
  by (induction table) (auto simp: table_refs_Cons table_refs_Nil)

lemma table_refs_remove1:
  assumes "elem \<in> set table" "distinct (pre @ table_refs table)"
  shows "distinct (pre @ table_refs (remove1 elem table)) \<and>
         set (table_refs (remove1 elem table)) \<subseteq> set (table_refs table) \<and>
         fst elem \<notin> set (pre @ table_refs (remove1 elem table)) \<and>
         snd elem \<notin> set (pre @ table_refs (remove1 elem table)) \<and>
         fst elem \<noteq> snd elem"
proof -
  from assms(1) obtain xs ys where t: "table = xs @ elem # ys" and "elem \<notin> set xs"
    by (meson split_list_first)
  then have r: "remove1 elem (xs @ elem # ys) = xs @ ys"
    by (simp add: remove1_append)
  from assms(2) show ?thesis
    unfolding t r by (auto simp: table_refs_append table_refs_Cons)
qed

text \<open>
  While a table of a property is being changed, the struct in the store still has the
  table as it was: \<open>pending\<close> says that the invariant holds once the struct is written
  back with the new table, and \<open>spare\<close> that a string is live and not yet held by any
  object.
\<close>

definition pending :: "heap \<Rightarrow> heap \<Rightarrow> addr \<Rightarrow> heap_object \<Rightarrow> bool" where
  "pending h0 h d obj =
     (heap_inv h0 (h[d := Some obj]) \<and> length h0 \<le> d \<and> kind_at h d = Some (kind obj))"

definition spare :: "heap \<Rightarrow> heap \<Rightarrow> addr \<Rightarrow> heap_object \<Rightarrow> addr \<Rightarrow> bool" where
  "spare h0 h d obj p =
     (kind_at h p = Some 0 \<and> length h0 \<le> p \<and> unreferenced (length h0) (h[d := Some obj]) p)"

lemma pending_start:
  assumes "heap_inv h0 h" "length h0 \<le> d" "load h d = Some obj"
  shows "pending h0 h d obj"
proof -
  from assms(3) have "d < length h" "h ! d = Some obj"
    by (auto simp: load_def split: if_splits)
  then have "h[d := Some obj] = h" by (metis list_update_id)
  with assms show ?thesis by (simp add: pending_def kind_at_def)
qed

lemma pending_finish:
  assumes "pending h0 h d obj"
  shows "store_object h d obj = Some (h[d := Some obj]) \<and> heap_inv h0 (h[d := Some obj]) \<and>
         structs_kept h (h[d := Some obj])"
proof -
  from assms have k: "kind_at h d = Some (kind obj)" by (simp add: pending_def)
  then obtain old where "load h d = Some old" "kind obj = kind old"
    by (auto simp: kind_at_def)
  then have "structs_kept h (h[d := Some obj])" by (rule structs_kept_update)
  with assms k show ?thesis by (simp add: pending_def store_object_live)
qed

lemma pending_load:
  assumes "pending h0 h d obj"
  shows "load (h[d := Some obj]) d = Some obj" "d < length h"
  using assms by (auto simp: pending_def load_update dest: kind_at_Some_less)

lemma pending_property_ref:
  assumes "pending h0 h d (Property_object name val e table)"
    and "a \<in> set (refs (Property_object name val e table))"
  shows "kind_at h a = Some 0 \<and> a \<noteq> d \<and> length h0 \<le> a"
proof -
  let ?obj = "Property_object name val e table"
  let ?P = "h[d := Some ?obj]"
  from assms(1) have heap_wf: "heap_wf (length h0) ?P" and d: "length h0 \<le> d"
    and k: "kind_at h d = Some 1"
    by (simp_all add: pending_def heap_inv_def)
  from pending_load [OF assms(1)] have l: "load ?P d = Some ?obj" by simp
  from heap_wf d l have "well_typed ?P ?obj" and fresh: "\<forall>p\<in>set (refs ?obj). length h0 \<le> p"
    unfolding heap_wf_def by blast+
  with assms(2) have ka: "kind_at ?P a = Some 0" by simp
  have "kind_at ?P d = Some 1" using l by (simp add: kind_at_def)
  with ka have "a \<noteq> d" by auto
  with ka have "kind_at h a = Some 0" by (simp add: kind_at_def load_update)
  with \<open>a \<noteq> d\<close> fresh assms(2) show ?thesis by blast
qed


lemma pending_elem_destroy:
  assumes pend: "pending h0 h d (Property_object name val e table)"
    and el: "elem \<in> set table"
  shows "\<exists>h1 h2. aws_hash_callback_string_destroy h (fst elem) = Some h1 \<and>
           aws_hash_callback_string_destroy h1 (snd elem) = Some h2 \<and>
           pending h0 h2 d (Property_object name val e (remove1 elem table)) \<and>
           structs_kept h h2 \<and>
           (\<forall>p. spare h0 h d (Property_object name val e table) p \<longrightarrow>
                spare h0 h2 d (Property_object name val e (remove1 elem table)) p)"
proof -
  let ?n = "length h0"
  let ?obj = "Property_object name val e table"
  let ?obj' = "Property_object name val e (remove1 elem table)"
  let ?k = "fst elem" and ?v = "snd elem"
  let ?P = "h[d := Some ?obj]" and ?P' = "h[d := Some ?obj']"
  let ?h2 = "h[?k := None, ?v := None]"
  from el have kin: "?k \<in> set (refs ?obj)" and vin: "?v \<in> set (refs ?obj)"
    by (auto simp: set_table_refs)
  from pending_property_ref [OF pend kin]
  have k: "kind_at h ?k = Some 0" "?k \<noteq> d" "?n \<le> ?k" by simp_all
  from pending_property_ref [OF pend vin]
  have v: "kind_at h ?v = Some 0" "?v \<noteq> d" "?n \<le> ?v" by simp_all
  from pend have inv: "heap_inv h0 ?P" and d: "?n \<le> d" and kd: "kind_at h d = Some 1"
    by (simp_all add: pending_def)
  from inv have wfP: "heap_wf ?n ?P" by (rule heap_inv_wf)
  from pending_load [OF pend] have lP: "load ?P d = Some ?obj" by simp
  from wfP d lP have dist: "distinct (refs ?obj)"
    and fresh: "\<forall>p\<in>set (refs ?obj). ?n \<le> p" and typed: "well_typed ?P ?obj"
    unfolding heap_wf_def by blast+
  from dist have "distinct ((opt_refs name @ opt_refs val) @ table_refs table)" by simp
  from table_refs_remove1 [OF el this]
  have dist': "distinct (refs ?obj')" and sub: "set (refs ?obj') \<subseteq> set (refs ?obj)"
    and knot: "?k \<notin> set (refs ?obj')" and vnot: "?v \<notin> set (refs ?obj')" and kv: "?k \<noteq> ?v"
    by auto
  from typed sub have typed': "well_typed ?P ?obj'" by auto
  have PP: "?P[d := Some ?obj'] = ?P'" by simp
  have "heap_inv h0 (?P[d := Some ?obj'])"
    using fresh sub dist' typed' by (intro heap_inv_update [OF inv d lP]) auto
  then have invP': "heap_inv h0 ?P'" unfolding PP .
  have uk: "unreferenced ?n ?P' ?k"
    using unreferenced_dropped [OF wfP d lP kin knot] unfolding PP .
  have uv: "unreferenced ?n ?P' ?v"
    using unreferenced_dropped [OF wfP d lP vin vnot] unfolding PP .
  have inv1: "heap_inv h0 (?P'[?k := None])"
    by (rule heap_inv_release [OF invP' k(3) uk])
  have inv2: "heap_inv h0 (?P'[?k := None, ?v := None])"
    by (rule heap_inv_release [OF inv1 v(3) unreferenced_release [OF uv]])
  have comm: "?P'[?k := None, ?v := None] = ?h2[d := Some ?obj']"
    using k(2) v(2) by (metis list_update_swap)
  have destroy1: "aws_hash_callback_string_destroy h ?k = Some (h[?k := None])"
    unfolding aws_hash_callback_string_destroy_def by (rule string_destroy_live [OF k(1)])
  have "kind_at (h[?k := None]) ?v = Some 0"
    using v(1) kv by (simp add: kind_at_release_other)
  then have destroy2: "aws_hash_callback_string_destroy (h[?k := None]) ?v = Some ?h2"
    unfolding aws_hash_callback_string_destroy_def by (rule string_destroy_live)
  have kd2: "kind_at ?h2 d = Some 1"
    using kd k(2) v(2) by (simp add: kind_at_release_other)
  have st: "structs_kept h ?h2"
    using structs_kept_release [OF k(1)] structs_kept_release [OF \<open>kind_at (h[?k := None]) ?v = Some 0\<close>]
    by (rule structs_kept_trans)
  have sp: "spare h0 ?h2 d ?obj' p" if "spare h0 h d ?obj p" for p
  proof -
    from that have p: "kind_at h p = Some 0" "?n \<le> p" "unreferenced ?n ?P p"
      by (simp_all add: spare_def)
    from p(3) d lP have pn: "p \<notin> set (refs ?obj)" unfolding unreferenced_def by blast
    with kin vin have "p \<noteq> ?k" "p \<noteq> ?v" by auto
    with p(1) have "kind_at ?h2 p = Some 0" by (simp add: kind_at_release_other)
    moreover from pn sub have "p \<notin> set (refs ?obj')" by auto
    from unreferenced_update [OF p(3) this, of d] have "unreferenced ?n ?P' p" unfolding PP .
    then have "unreferenced ?n (?P'[?k := None, ?v := None]) p"
      by (intro unreferenced_release)
    then have "unreferenced ?n (?h2[d := Some ?obj']) p" unfolding comm .
    ultimately show ?thesis using p(2) by (simp add: spare_def)
  qed
  have "pending h0 ?h2 d ?obj'"
    using inv2 d kd2 unfolding comm by (simp add: pending_def)
  with destroy1 destroy2 st sp show ?thesis by blast
qed


lemma pending_find:
  assumes "pending h0 h d (Property_object name val e table)"
  shows "\<exists>r. aws_hash_table_find_store h table key = Some r \<and>
             (\<forall>elem. r = Some elem \<longrightarrow> elem \<in> set table)"
proof (rule find_store_total, rule ballI)
  fix elem assume "elem \<in> set table"
  then have "fst elem \<in> set (refs (Property_object name val e table))"
    by (auto simp: set_table_refs)
  from pending_property_ref [OF assms this] show "kind_at h (fst elem) = Some 0" by simp
qed

lemma remove_store_spec:
  assumes pend: "pending h0 h d (Property_object name val e table)"
    and key: "load_string h key = Some bytes"
  shows "\<exists>table1 h1 was_present.
           aws_hash_table_remove_store aws_hash_callback_string_destroy
             aws_hash_callback_string_destroy h table key = Some (table1, h1, was_present) \<and>
           pending h0 h1 d (Property_object name val e table1) \<and> structs_kept h h1 \<and>
           (\<forall>p. spare h0 h d (Property_object name val e table) p \<longrightarrow>
                spare h0 h1 d (Property_object name val e table1) p)"
proof -
  from pending_find [OF pend, of bytes] obtain r
    where r: "aws_hash_table_find_store h table bytes = Some r"
      and mem: "\<forall>elem. r = Some elem \<longrightarrow> elem \<in> set table"
    by blast
  show ?thesis
  proof (cases r)
    case None
    with r key have "aws_hash_table_remove_store aws_hash_callback_string_destroy
        aws_hash_callback_string_destroy h table key = Some (table, h, False)"
      by (simp add: aws_hash_table_remove_store_def)
    with pend structs_kept_refl show ?thesis by blast
  next
    case (Some elem)
    with mem have "elem \<in> set table" by simp
    from pending_elem_destroy [OF pend this] obtain h1 h2
      where "aws_hash_callback_string_destroy h (fst elem) = Some h1"
        "aws_hash_callback_string_destroy h1 (snd elem) = Some h2"
        and rest: "pending h0 h2 d (Property_object name val e (remove1 elem table))"
          "structs_kept h h2"
          "\<forall>p. spare h0 h d (Property_object name val e table) p \<longrightarrow>
               spare h0 h2 d (Property_object name val e (remove1 elem table)) p"
      by blast
    with r key Some have "aws_hash_table_remove_store aws_hash_callback_string_destroy
        aws_hash_callback_string_destroy h table key = Some (remove1 elem table, h2, True)"
      by (simp add: aws_hash_table_remove_store_def)
    with rest show ?thesis by blast
  qed
qed

lemma pending_add_elem:
  assumes pend: "pending h0 h d (Property_object name val e table)"
    and key: "spare h0 h d (Property_object name val e table) key"
    and v: "spare h0 h d (Property_object name val e table) v"
    and ne: "key \<noteq> v"
  shows "pending h0 h d (Property_object name val e (table @ [(key, v)]))"
proof -
  let ?n = "length h0"
  let ?obj = "Property_object name val e table"
  let ?obj' = "Property_object name val e (table @ [(key, v)])"
  let ?P = "h[d := Some ?obj]"
  from pend have inv: "heap_inv h0 ?P" and d: "?n \<le> d" and kd: "kind_at h d = Some 1"
    by (simp_all add: pending_def)
  from inv have wfP: "heap_wf ?n ?P" by (rule heap_inv_wf)
  from pending_load [OF pend] have lP: "load ?P d = Some ?obj" by simp
  from wfP d lP have dist: "distinct (refs ?obj)"
    and fresh: "\<forall>p\<in>set (refs ?obj). ?n \<le> p" and typed: "well_typed ?P ?obj"
    unfolding heap_wf_def by blast+
  from key have k: "kind_at h key = Some 0" "?n \<le> key" "unreferenced ?n ?P key"
    by (simp_all add: spare_def)
  from v have w: "kind_at h v = Some 0" "?n \<le> v" "unreferenced ?n ?P v"
    by (simp_all add: spare_def)
  from k(3) w(3) d lP have notin: "key \<notin> set (refs ?obj)" "v \<notin> set (refs ?obj)"
    unfolding unreferenced_def by blast+
  from k(1) w(1) kd have "key \<noteq> d" "v \<noteq> d" by auto
  with k(1) w(1) have kP: "kind_at ?P key = Some 0" "kind_at ?P v = Some 0"
    by (simp_all add: kind_at_def load_update)
  have refs': "refs ?obj' = refs ?obj @ [key, v]"
    by (simp add: table_refs_append table_refs_Cons table_refs_Nil)
  have "heap_inv h0 (?P[d := Some ?obj'])"
  proof (rule heap_inv_update [OF inv d lP])
    show "kind ?obj' = kind ?obj" by simp
    show "distinct (refs ?obj')" using dist notin ne unfolding refs' by simp
    show "\<forall>p\<in>set (refs ?obj'). ?n \<le> p" using fresh k(2) w(2) unfolding refs' by simp
    show "well_typed ?P ?obj'" using typed kP by (auto simp: set_table_refs)
    show "\<forall>p\<in>set (refs ?obj') - set (refs ?obj). unreferenced ?n ?P p"
      using k(3) w(3) unfolding refs' by auto
  qed
  then have "heap_inv h0 (h[d := Some ?obj'])" by simp
  with d kd show ?thesis by (simp add: pending_def)
qed

lemma put_store_spec:
  assumes pend: "pending h0 h d (Property_object name val e table)"
    and key: "spare h0 h d (Property_object name val e table) key"
    and v: "spare h0 h d (Property_object name val e table) v"
    and ne: "key \<noteq> v"
  shows "\<exists>table2 h2.
           aws_hash_table_put_store aws_hash_callback_string_destroy
             aws_hash_callback_string_destroy h table key v = Some (table2, h2) \<and>
           pending h0 h2 d (Property_object name val e table2) \<and> structs_kept h h2"
proof -
  from key have "kind_at h key = Some 0" by (simp add: spare_def)
  then obtain bytes where bytes: "load_string h key = Some bytes"
    using load_string_kind by blast
  from pending_find [OF pend, of bytes] obtain r
    where r: "aws_hash_table_find_store h table bytes = Some r"
      and mem: "\<forall>elem. r = Some elem \<longrightarrow> elem \<in> set table"
    by blast
  show ?thesis
  proof (cases r)
    case None
    with r bytes have "aws_hash_table_put_store aws_hash_callback_string_destroy
        aws_hash_callback_string_destroy h table key v = Some (table @ [(key, v)], h)"
      by (simp add: aws_hash_table_put_store_def)
    with pending_add_elem [OF pend key v ne] structs_kept_refl show ?thesis by blast
  next
    case (Some elem)
    with mem have el: "elem \<in> set table" by simp
    from pending_elem_destroy [OF pend el] obtain h1 h2
      where destroy: "aws_hash_callback_string_destroy h (fst elem) = Some h1"
        "aws_hash_callback_string_destroy h1 (snd elem) = Some h2"
        and rest: "pending h0 h2 d (Property_object name val e (remove1 elem table))"
          "structs_kept h h2"
        and sp: "\<forall>p. spare h0 h d (Property_object name val e table) p \<longrightarrow>
               spare h0 h2 d (Property_object name val e (remove1 elem table)) p"
      by blast
    from key pend have "unreferenced (length h0) (h[d := Some (Property_object name val e table)]) key"
      by (simp add: spare_def)
    with pending_load [OF pend] pend
    have "key \<notin> set (refs (Property_object name val e table))"
      unfolding unreferenced_def pending_def by blast
    with el have "fst elem \<noteq> key" by (auto simp: set_table_refs)
    with r bytes Some destroy
    have "aws_hash_table_put_store aws_hash_callback_string_destroy
        aws_hash_callback_string_destroy h table key v
        = Some (remove1 elem table @ [(key, v)], h2)"
      by (simp add: aws_hash_table_put_store_def)
    moreover from sp key v
    have "pending h0 h2 d (Property_object name val e (remove1 elem table @ [(key, v)]))"
      by (intro pending_add_elem [OF rest(1) _ _ ne]) blast+
    ultimately show ?thesis using rest(2) by blast
  qed
qed


lemma load_append_Some: "load h a = Some obj \<Longrightarrow> load (h @ ext) a = Some obj"
  by (auto simp: load_def nth_append split: if_splits)

lemma heap_inv_append_string: "heap_inv h0 h \<Longrightarrow> heap_inv h0 (h @ [Some (String_object bytes)])"
  by (rule heap_inv_append) simp_all

lemma spare_fresh_string:
  assumes "heap_inv h0 h" "load h d = Some obj"
  shows "spare h0 (h @ [Some (String_object bytes)]) d obj (length h)"
proof -
  let ?h1 = "h @ [Some (String_object bytes)]"
  from assms(2) have "d < length h" by (rule load_Some_less)
  with assms(2) have "load ?h1 d = Some obj" by (simp add: load_append)
  then have "?h1 ! d = Some obj" "d < length ?h1"
    by (auto simp: load_def split: if_splits)
  then have id: "?h1[d := Some obj] = ?h1" by (metis list_update_id)
  have "unreferenced (length h0) h (length h)"
    by (rule unreferenced_fresh [OF heap_inv_wf [OF assms(1)]]) simp
  then have "unreferenced (length h0) ?h1 (length h)"
    by (rule unreferenced_append) simp
  moreover have "kind_at ?h1 (length h) = Some 0"
    by (simp add: kind_at_def load_append)
  ultimately show ?thesis
    using heap_inv_length [OF assms(1)] unfolding spare_def id by simp
qed

lemma spare_append_string:
  assumes "spare h0 h d obj p" "load h d = Some obj"
  shows "spare h0 (h @ [Some (String_object bytes)]) d obj p"
proof -
  let ?h1 = "h @ [Some (String_object bytes)]"
  from assms(2) have dl: "d < length h" by (rule load_Some_less)
  then have eq: "?h1[d := Some obj] = h[d := Some obj] @ [Some (String_object bytes)]"
    by (simp add: list_update_append)
  from assms(1) have "unreferenced (length h0) (h[d := Some obj]) p" by (simp add: spare_def)
  then have "unreferenced (length h0) (h[d := Some obj] @ [Some (String_object bytes)]) p"
    by (rule unreferenced_append) simp
  moreover from assms(1) have "kind_at ?h1 p = Some 0"
    by (simp add: spare_def kind_at_append)
  ultimately show ?thesis using assms(1) unfolding spare_def eq by simp
qed

lemma property_merge_iter_spec:
  assumes inv: "heap_inv h0 h" and d: "length h0 \<le> d" "kind_at h d = Some 1"
    and src: "kind_at h0 (fst elem) = Some 0" "kind_at h0 (snd elem) = Some 0"
  shows "\<exists>h'. s_profile_property_merge_iter_store d elem h = Some h' \<and> heap_inv h0 h' \<and> structs_kept h h'"
proof -
  from src obtain kb vb where kb: "load_string h0 (fst elem) = Some kb"
    and vb: "load_string h0 (snd elem) = Some vb"
    using load_string_kind by blast
  let ?h1 = "h @ [Some (String_object kb)]"
  let ?h2 = "?h1 @ [Some (String_object vb)]"
  let ?dk = "length h" and ?dv = "length ?h1"
  have inv1: "heap_inv h0 ?h1" by (rule heap_inv_append_string [OF inv])
  have inv2: "heap_inv h0 ?h2" by (rule heap_inv_append_string [OF inv1])
  have new1: "aws_string_new_from_string h (fst elem) = Some (?dk, ?h1)"
    by (rule string_new_from_string [OF load_string_prefix [OF heap_inv_prefix [OF inv] kb]])
  have new2: "aws_string_new_from_string ?h1 (snd elem) = Some (?dv, ?h2)"
    by (rule string_new_from_string [OF load_string_prefix [OF heap_inv_prefix [OF inv1] vb]])
  from d(2) obtain obj where obj: "load h d = Some obj" "kind obj = 1"
    by (auto simp: kind_at_def)
  then obtain name val e subs where o: "obj = Property_object name val e subs"
    by (cases obj) simp_all
  let ?obj = "Property_object name val e subs"
  from obj(1) have l1: "load ?h1 d = Some ?obj"
    unfolding o by (rule load_append_Some)
  then have l2: "load ?h2 d = Some ?obj"
    by (rule load_append_Some)
  then have lp: "load_property ?h2 d = Some (name, val, e, subs)"
    by (simp add: load_property_def)
  have pend: "pending h0 ?h2 d ?obj" by (rule pending_start [OF inv2 d(1) l2])
  have sk: "spare h0 ?h2 d ?obj ?dk"
    by (rule spare_append_string [OF spare_fresh_string [OF inv] l1]) (simp add: obj(1) o)
  have sv: "spare h0 ?h2 d ?obj ?dv"
    by (rule spare_fresh_string [OF inv1 l1])
  have "load ?h1 ?dk = Some (String_object kb)"
    by (simp add: load_def)
  then have "load ?h2 ?dk = Some (String_object kb)"
    by (rule load_append_Some)
  then have key: "load_string ?h2 ?dk = Some kb"
    by (simp add: load_string_def)
  from remove_store_spec [OF pend key] obtain subs1 h3 was_present
    where rm: "aws_hash_table_remove_store aws_hash_callback_string_destroy
             aws_hash_callback_string_destroy ?h2 subs ?dk = Some (subs1, h3, was_present)"
      and pend3: "pending h0 h3 d (Property_object name val e subs1)"
      and st3: "structs_kept ?h2 h3"
      and sp3: "\<forall>p. spare h0 ?h2 d ?obj p \<longrightarrow> spare h0 h3 d (Property_object name val e subs1) p"
    by blast
  from sp3 sk sv have sk3: "spare h0 h3 d (Property_object name val e subs1) ?dk"
    and sv3: "spare h0 h3 d (Property_object name val e subs1) ?dv" by blast+
  have "?dk \<noteq> ?dv" by simp
  from put_store_spec [OF pend3 sk3 sv3 this] obtain subs2 h4
    where put: "aws_hash_table_put_store aws_hash_callback_string_destroy
             aws_hash_callback_string_destroy h3 subs1 ?dk ?dv = Some (subs2, h4)"
      and pend4: "pending h0 h4 d (Property_object name val e subs2)"
      and st4: "structs_kept h3 h4"
    by blast
  let ?h5 = "h4[d := Some (Property_object name val e subs2)]"
  from pending_finish [OF pend4]
  have fin: "store_object h4 d (Property_object name val e subs2) = Some ?h5"
    and inv5: "heap_inv h0 ?h5" and st5: "structs_kept h4 ?h5" by simp_all
  have "s_profile_property_merge_iter_store d elem h = Some ?h5"
    using new1 new2 lp rm put fin
    by (simp add: s_profile_property_merge_iter_store_def)
  moreover have "structs_kept h ?h5"
    using structs_kept_append [of h] structs_kept_append [of ?h1] st3 st4 st5
    by (blast intro: structs_kept_trans)
  ultimately show ?thesis using inv5 by blast
qed


lemma heap_inv_obj:
  assumes "heap_inv h0 h" "length h0 \<le> d" "load h d = Some obj"
  shows "distinct (refs obj)" "\<forall>p\<in>set (refs obj). length h0 \<le> p" "well_typed h obj"
  using assms unfolding heap_inv_def heap_wf_def by blast+

lemma fold_option_stable:
  assumes step: "\<And>x h. x \<in> set xs \<Longrightarrow> heap_inv h0 h \<Longrightarrow> structs_kept hstart h \<Longrightarrow>
                   \<exists>h'. f x h = Some h' \<and> heap_inv h0 h' \<and> structs_kept h h'"
    and "heap_inv h0 hs" "structs_kept hstart hs"
  shows "\<exists>h'. fold_option f xs hs = Some h' \<and> heap_inv h0 h' \<and> structs_kept hs h'"
  using assms
proof (induction xs arbitrary: hs)
  case Nil
  then show ?case by (simp add: structs_kept_refl)
next
  case (Cons x xs)
  from Cons.prems(1) [of x hs] Cons.prems(2,3) obtain h1
    where h1: "f x hs = Some h1" "heap_inv h0 h1" "structs_kept hs h1" by auto
  from Cons.prems(3) h1(3) have "structs_kept hstart h1" by (rule structs_kept_trans)
  with Cons.IH [of h1] Cons.prems(1) h1(2) obtain h2
    where "fold_option f xs h1 = Some h2" "heap_inv h0 h2" "structs_kept h1 h2" by auto
  with h1 show ?case by (auto intro: structs_kept_trans)
qed

text \<open>
  What a merge reads of its source: the source is a property whose value and
  sub-properties are strings of the store the merge started in.
\<close>

definition src_property :: "heap \<Rightarrow> addr \<Rightarrow> bool" where
  "src_property h0 a =
     (\<exists>name val e subs. load h0 a = Some (Property_object name val e subs) \<and>
        (\<forall>x\<in>set (opt_refs val). kind_at h0 x = Some 0) \<and>
        (\<forall>elem\<in>set subs. kind_at h0 (fst elem) = Some 0 \<and> kind_at h0 (snd elem) = Some 0))"

lemma property_set_value:
  assumes inv: "heap_inv h0 h" and d: "length h0 \<le> d"
    and ld: "load h d = Some (Property_object name val e subs)"
  shows "\<exists>h2. aws_string_destroy (h @ [Some (String_object bytes)]) val = Some h2 \<and>
           store_object h2 d (Property_object name (Some (length h)) e subs)
             = Some (h2[d := Some (Property_object name (Some (length h)) e subs)]) \<and>
           heap_inv h0 (h2[d := Some (Property_object name (Some (length h)) e subs)]) \<and>
           structs_kept h (h2[d := Some (Property_object name (Some (length h)) e subs)])"
proof -
  let ?n = "length h0"
  let ?h1 = "h @ [Some (String_object bytes)]"
  let ?obj = "Property_object name val e subs"
  let ?obj' = "Property_object name (Some (length h)) e subs"
  have inv1: "heap_inv h0 ?h1" by (rule heap_inv_append_string [OF inv])
  from ld have l1: "load ?h1 d = Some ?obj" by (rule load_append_Some)
  note o = heap_inv_obj [OF inv1 d l1]
  have "unreferenced ?n h (length h)"
    by (rule unreferenced_fresh [OF heap_inv_wf [OF inv]]) simp
  then have un: "unreferenced ?n ?h1 (length h)"
    by (rule unreferenced_append) simp
  have nk: "kind_at ?h1 (length h) = Some 0"
    by (simp add: kind_at_def load_def)
  from un d l1 have notin: "length h \<notin> set (refs ?obj)"
    unfolding unreferenced_def by blast
  have kd: "kind_at ?h1 d = Some 1" using l1 by (simp add: kind_at_def)
  have sub: "set (refs ?obj') \<subseteq> insert (length h) (set (refs ?obj))"
    by (auto simp: opt_refs_def)
  have dist': "distinct (refs ?obj')"
    using o(1) notin by (auto simp: opt_refs_def split: option.splits)
  have invU: "heap_inv h0 (?h1[d := Some ?obj'])"
  proof (rule heap_inv_update [OF inv1 d l1])
    show "kind ?obj' = kind ?obj" by simp
    show "distinct (refs ?obj')" by (rule dist')
    show "\<forall>p\<in>set (refs ?obj'). ?n \<le> p"
      using o(2) sub heap_inv_length [OF inv] by auto
    show "well_typed ?h1 ?obj'" using o(3) nk by (auto simp: opt_refs_def)
    show "\<forall>p\<in>set (refs ?obj') - set (refs ?obj). unreferenced ?n ?h1 p"
      using sub un by auto
  qed
  have stU: "structs_kept h (?h1[d := Some ?obj'])"
    using structs_kept_append [of h] structs_kept_update [OF l1, of ?obj']
    by (auto intro: structs_kept_trans)
  show ?thesis
  proof (cases val)
    case None
    then have "aws_string_destroy ?h1 val = Some ?h1"
      by (simp add: aws_string_destroy_def)
    moreover have "store_object ?h1 d ?obj' = Some (?h1[d := Some ?obj'])"
      by (rule store_object_live [OF kd])
    ultimately show ?thesis using invU stU by blast
  next
    case (Some x)
    then have xin: "x \<in> set (refs ?obj)" by (simp add: opt_refs_def)
    with o have x: "kind_at ?h1 x = Some 0" "?n \<le> x" by auto
    with kd have xd: "x \<noteq> d" by auto
    from xin notin have "x \<noteq> length h" by auto
    with o(1) Some have xnot: "x \<notin> set (refs ?obj')" by (auto simp: opt_refs_def)
    let ?h2 = "?h1[x := None]"
    have destroy: "aws_string_destroy ?h1 val = Some ?h2"
      unfolding Some by (rule string_destroy_live [OF x(1)])
    have kd2: "kind_at ?h2 d = Some 1"
      using kd xd by (simp add: kind_at_release_other)
    have store: "store_object ?h2 d ?obj' = Some (?h2[d := Some ?obj'])"
      by (rule store_object_live [OF kd2])
    have comm: "?h2[d := Some ?obj'] = (?h1[d := Some ?obj'])[x := None]"
      using xd by (metis list_update_swap)
    have "unreferenced ?n (?h1[d := Some ?obj']) x"
      by (rule unreferenced_dropped [OF heap_inv_wf [OF inv1] d l1 xin xnot])
    from heap_inv_release [OF invU x(2) this] have inv2: "heap_inv h0 (?h2[d := Some ?obj'])"
      unfolding comm .
    have "kind_at (?h1[d := Some ?obj']) x = Some 0"
      using x(1) xd by (simp add: kind_at_def load_update)
    from structs_kept_trans [OF stU structs_kept_release [OF this]]
    have "structs_kept h (?h2[d := Some ?obj'])" unfolding comm .
    with destroy store inv2 show ?thesis by blast
  qed
qed


lemma load_update_self:
  "kind_at (h[d := Some obj]) d = Some k \<Longrightarrow> load (h[d := Some obj]) d = Some obj"
  by (auto simp: load_def dest: kind_at_Some_less)

lemma structs_kept_kind: "structs_kept h h' \<Longrightarrow> kind_at h a = Some k \<Longrightarrow> 0 < k \<Longrightarrow> kind_at h' a = Some k"
  by (simp add: structs_kept_def)

lemma heap_inv_update_same_refs:
  assumes inv: "heap_inv h0 h" and d: "length h0 \<le> d" and ld: "load h d = Some obj"
    and k: "kind obj' = kind obj" and r: "refs obj' = refs obj"
    and t: "well_typed h obj \<Longrightarrow> well_typed h obj'"
  shows "heap_inv h0 (h[d := Some obj'])"
  using heap_inv_obj [OF inv d ld] t
  by (intro heap_inv_update [OF inv d ld k]) (simp_all add: r)

lemma property_merge_tail:
  assumes inv: "heap_inv h0 h" and d: "length h0 \<le> d"
    and ld: "load h d = Some (Property_object name val e subs)"
    and src: "\<forall>elem\<in>set ssubs. kind_at h0 (fst elem) = Some 0 \<and> kind_at h0 (snd elem) = Some 0"
  shows "\<exists>h4 h'. store_object h d (Property_object name val se subs) = Some h4 \<and>
           fold_option (s_profile_property_merge_iter_store d) ssubs h4 = Some h' \<and>
           heap_inv h0 h' \<and> structs_kept h h'"
proof -
  let ?obj' = "Property_object name val se subs"
  let ?h4 = "h[d := Some ?obj']"
  from ld have kd: "kind_at h d = Some 1" by (simp add: kind_at_def)
  have store: "store_object h d ?obj' = Some ?h4" by (rule store_object_live [OF kd])
  have inv4: "heap_inv h0 ?h4"
    by (rule heap_inv_update_same_refs [OF inv d ld]) simp_all
  have st4: "structs_kept h ?h4" by (rule structs_kept_update [OF ld]) simp
  have "\<exists>h'. fold_option (s_profile_property_merge_iter_store d) ssubs ?h4 = Some h' \<and>
           heap_inv h0 h' \<and> structs_kept ?h4 h'"
  proof (rule fold_option_stable [where hstart = h, OF _ inv4 st4])
    fix x hx assume x: "x \<in> set ssubs" and hx: "heap_inv h0 hx" "structs_kept h hx"
    from structs_kept_kind [OF hx(2) kd] have "kind_at hx d = Some 1" by simp
    with src x show "\<exists>h'. s_profile_property_merge_iter_store d x hx = Some h' \<and> heap_inv h0 h' \<and> structs_kept hx h'"
      by (intro property_merge_iter_spec [OF hx(1) d]) auto
  qed
  with store st4 show ?thesis by (blast intro: structs_kept_trans)
qed

lemma property_merge_spec:
  assumes inv: "heap_inv h0 h" and d: "length h0 \<le> d" "kind_at h d = Some 1"
    and src: "src_property h0 source"
  shows "\<exists>h'. s_profile_property_merge_store h d source = Some h' \<and> heap_inv h0 h' \<and> structs_kept h h'"
proof -
  from src obtain sname sval se ssubs
    where ls0: "load h0 source = Some (Property_object sname sval se ssubs)"
      and sv: "\<forall>x\<in>set (opt_refs sval). kind_at h0 x = Some 0"
      and ss: "\<forall>elem\<in>set ssubs. kind_at h0 (fst elem) = Some 0 \<and> kind_at h0 (snd elem) = Some 0"
    unfolding src_property_def by blast
  have ls: "load_property h source = Some (sname, sval, se, ssubs)"
    using load_prefix [OF heap_inv_prefix [OF inv] ls0] by (simp add: load_property_def)
  from d(2) obtain obj where obj: "load h d = Some obj" "kind obj = 1"
    by (auto simp: kind_at_def)
  then obtain name val e subs where ld: "load h d = Some (Property_object name val e subs)"
    by (cases obj) simp_all
  show ?thesis
  proof (cases sval)
    case None
    from ld have lp: "load_property h d = Some (name, val, e, subs)"
      by (simp add: load_property_def)
    from property_merge_tail [OF inv d(1) ld ss, of se] obtain h4 h'
      where "store_object h d (Property_object name val se subs) = Some h4"
        "fold_option (s_profile_property_merge_iter_store d) ssubs h4 = Some h'"
        "heap_inv h0 h'" "structs_kept h h'" by blast
    with ls lp None show ?thesis
      by (simp add: s_profile_property_merge_store_def)
  next
    case (Some v)
    with sv obtain vb where vb: "load_string h0 v = Some vb"
      using load_string_kind by (auto simp: opt_refs_def)
    let ?h1 = "h @ [Some (String_object vb)]"
    let ?obj' = "Property_object name (Some (length h)) e subs"
    have new: "aws_string_new_from_string h v = Some (length h, ?h1)"
      by (rule string_new_from_string [OF load_string_prefix [OF heap_inv_prefix [OF inv] vb]])
    from ld have "load ?h1 d = Some (Property_object name val e subs)"
      by (rule load_append_Some)
    then have lp1: "load_property ?h1 d = Some (name, val, e, subs)"
      by (simp add: load_property_def)
    from property_set_value [OF inv d(1) ld, of vb] obtain h2
      where destroy: "aws_string_destroy ?h1 val = Some h2"
        and store: "store_object h2 d ?obj' = Some (h2[d := Some ?obj'])"
        and inv3: "heap_inv h0 (h2[d := Some ?obj'])" and st3: "structs_kept h (h2[d := Some ?obj'])"
      by blast
    let ?h3 = "h2[d := Some ?obj']"
    from structs_kept_kind [OF st3 d(2)] have "kind_at ?h3 d = Some 1" by simp
    then have ld3: "load ?h3 d = Some ?obj'" by (rule load_update_self)
    then have lp3: "load_property ?h3 d = Some (name, Some (length h), e, subs)"
      by (simp add: load_property_def)
    from property_merge_tail [OF inv3 d(1) ld3 ss, of se] obtain h4 h'
      where "store_object ?h3 d (Property_object name (Some (length h)) se subs) = Some h4"
        "fold_option (s_profile_property_merge_iter_store d) ssubs h4 = Some h'"
        "heap_inv h0 h'" "structs_kept ?h3 h'" by blast
    with ls Some new lp1 destroy store lp3 st3 show ?thesis
      by (auto simp: s_profile_property_merge_store_def intro: structs_kept_trans)
  qed
qed


lemma load_append_cases:
  assumes "load (h @ ext) b = Some obj"
  shows "load h b = Some obj \<or> Some obj \<in> set ext"
proof (cases "b < length h")
  case True
  with assms show ?thesis by (simp add: load_def nth_append)
next
  case False
  with assms have "b - length h < length ext" "ext ! (b - length h) = Some obj"
    by (auto simp: load_def nth_append split: if_splits)
  then show ?thesis by (metis nth_mem)
qed

lemma unreferenced_append_list:
  assumes "unreferenced n h p" "\<forall>obj. Some obj \<in> set ext \<longrightarrow> p \<notin> set (refs obj)"
  shows "unreferenced n (h @ ext) p"
  using assms unfolding unreferenced_def by (blast dest: load_append_cases)

lemma kind_at_append_list: "kind_at h a = Some k \<Longrightarrow> kind_at (h @ ext) a = Some k"
  by (auto simp: kind_at_def dest: load_append_Some)

lemma structs_kept_append_list: "structs_kept h (h @ ext)"
  by (simp add: structs_kept_def kind_at_append_list)

lemma load_string_append:
  assumes "load_string h a = Some bytes"
  shows "load_string (h @ ext) a = Some bytes"
proof -
  from assms have "load h a = Some (String_object bytes)"
    by (auto simp: load_string_def split: option.splits heap_object.splits)
  then have "load (h @ ext) a = Some (String_object bytes)" by (rule load_append_Some)
  then show ?thesis by (simp add: load_string_def)
qed

lemma property_new_spec:
  assumes inv: "heap_inv h0 h"
  shows "aws_profile_property_new_store h name val
         = (length h, h @ [Some (Property_object (Some (length h + 2)) (Some (length h + 1))
                               (length val = 0) []),
                           Some (String_object val), Some (String_object name)])"
    and "heap_inv h0 (h @ [Some (Property_object (Some (length h + 2)) (Some (length h + 1))
                               (length val = 0) []),
                      Some (String_object val), Some (String_object name)])"
proof -
  let ?z = "Property_object None None False []"
  let ?p = "Property_object (Some (length h + 2)) (Some (length h + 1)) (length val = 0) []"
  let ?a = "((h @ [Some ?z]) @ [Some (String_object val)]) @ [Some (String_object name)]"
  have eq: "?a[length h := Some ?p]
      = h @ [Some ?p, Some (String_object val), Some (String_object name)]"
    by (simp add: list_update_append)
  show "aws_profile_property_new_store h name val
         = (length h, h @ [Some ?p, Some (String_object val), Some (String_object name)])"
    by (simp add: aws_profile_property_new_store_def aws_mem_acquire_def
        aws_string_new_from_array_def list_update_append)
  have inv1: "heap_inv h0 (h @ [Some ?z])"
    by (rule heap_inv_append [OF inv]) (simp_all add: opt_refs_def table_refs_Nil)
  have inv2: "heap_inv h0 ((h @ [Some ?z]) @ [Some (String_object val)])"
    by (rule heap_inv_append_string [OF inv1])
  have inv3: "heap_inv h0 ?a" by (rule heap_inv_append_string [OF inv2])
  have lz: "load ?a (length h) = Some ?z" by (simp add: load_def nth_append)
  have un1: "unreferenced (length h0) ?a (length h + 1)"
  proof -
    have "unreferenced (length h0) (h @ [Some ?z]) (length h + 1)"
      by (rule unreferenced_fresh [OF heap_inv_wf [OF inv1]]) simp
    then have "unreferenced (length h0) ((h @ [Some ?z]) @ [Some (String_object val)]) (length h + 1)"
      by (rule unreferenced_append) simp
    then show ?thesis
      by (rule unreferenced_append) simp
  qed
  have un2: "unreferenced (length h0) ?a (length h + 2)"
  proof -
    have "unreferenced (length h0) ((h @ [Some ?z]) @ [Some (String_object val)]) (length h + 2)"
      by (rule unreferenced_fresh [OF heap_inv_wf [OF inv2]]) simp
    then show ?thesis
      by (rule unreferenced_append) simp
  qed
  have "heap_inv h0 (?a[length h := Some ?p])"
  proof (rule heap_inv_update [OF inv3 heap_inv_length [OF inv] lz])
    show "kind ?p = kind ?z" by simp
    show "distinct (refs ?p)" by (simp add: opt_refs_def table_refs_Nil)
    show "\<forall>p\<in>set (refs ?p). length h0 \<le> p"
      using heap_inv_length [OF inv] by (simp add: opt_refs_def table_refs_Nil)
    show "well_typed ?a ?p"
      by (simp add: opt_refs_def table_refs_Nil kind_at_def load_def nth_append)
    show "\<forall>p\<in>set (refs ?p) - set (refs ?z). unreferenced (length h0) ?a p"
      using un1 un2 by (simp add: opt_refs_def table_refs_Nil)
  qed
  then show "heap_inv h0 (h @ [Some ?p, Some (String_object val), Some (String_object name)])"
    unfolding eq .
qed


lemma put_store_new:
  "load_string h key = Some bytes \<Longrightarrow> aws_hash_table_find_store h table bytes = Some None \<Longrightarrow>
   aws_hash_table_put_store destroy_key_fn destroy_value_fn h table key v
   = Some (table @ [(key, v)], h)"
  by (simp add: aws_hash_table_put_store_def)

lemma find_store_append:
  assumes "\<forall>elem\<in>set table. kind_at h (fst elem) = Some 0"
  shows "aws_hash_table_find_store (h @ ext) table key = aws_hash_table_find_store h table key"
proof (rule find_store_cong, rule ballI)
  fix elem assume "elem \<in> set table"
  with assms obtain bytes where "load_string h (fst elem) = Some bytes"
    using load_string_kind by blast
  then show "load_string (h @ ext) (fst elem) = load_string h (fst elem)"
    by (simp add: load_string_append)
qed

lemma heap_inv_add_property_entry:
  assumes inv: "heap_inv h0 h" and d: "length h0 \<le> d"
    and ld: "load h d = Some (Profile_object name f props)"
    and k: "kind_at h k = Some 0" "length h0 \<le> k" "unreferenced (length h0) h k"
    and v: "kind_at h v = Some 1" "length h0 \<le> v" "unreferenced (length h0) h v"
  shows "heap_inv h0 (h[d := Some (Profile_object name f (props @ [(k, v)]))])"
proof -
  let ?obj = "Profile_object name f props"
  let ?obj' = "Profile_object name f (props @ [(k, v)])"
  note o = heap_inv_obj [OF inv d ld]
  from k(3) v(3) d ld have notin: "k \<notin> set (refs ?obj)" "v \<notin> set (refs ?obj)"
    unfolding unreferenced_def by blast+
  from k(1) v(1) have ne: "k \<noteq> v" by auto
  have refs': "refs ?obj' = refs ?obj @ [k, v]"
    by (simp add: table_refs_append table_refs_Cons table_refs_Nil)
  show ?thesis
  proof (rule heap_inv_update [OF inv d ld])
    show "kind ?obj' = kind ?obj" by simp
    show "distinct (refs ?obj')" using o(1) notin ne unfolding refs' by simp
    show "\<forall>p\<in>set (refs ?obj'). length h0 \<le> p" using o(2) k(2) v(2) unfolding refs' by simp
    show "well_typed h ?obj'" using o(3) k(1) v(1) by auto
    show "\<forall>p\<in>set (refs ?obj') - set (refs ?obj). unreferenced (length h0) h p"
      using k(3) v(3) unfolding refs' by auto
  qed
qed

lemma heap_inv_add_profile_entry:
  assumes inv: "heap_inv h0 h" and d: "length h0 \<le> d"
    and ld: "load h d = Some (Collection_object source profs)"
    and k: "kind_at h k = Some 0" "length h0 \<le> k" "unreferenced (length h0) h k"
    and v: "kind_at h v = Some 2" "length h0 \<le> v" "unreferenced (length h0) h v"
  shows "heap_inv h0 (h[d := Some (Collection_object source (profs @ [(k, v)]))])"
proof -
  let ?obj = "Collection_object source profs"
  let ?obj' = "Collection_object source (profs @ [(k, v)])"
  note o = heap_inv_obj [OF inv d ld]
  from k(3) v(3) d ld have notin: "k \<notin> set (refs ?obj)" "v \<notin> set (refs ?obj)"
    unfolding unreferenced_def by blast+
  from k(1) v(1) have ne: "k \<noteq> v" by auto
  have refs': "refs ?obj' = refs ?obj @ [k, v]"
    by (simp add: table_refs_append table_refs_Cons table_refs_Nil)
  show ?thesis
  proof (rule heap_inv_update [OF inv d ld])
    show "kind ?obj' = kind ?obj" by simp
    show "distinct (refs ?obj')" using o(1) notin ne unfolding refs' by simp
    show "\<forall>p\<in>set (refs ?obj'). length h0 \<le> p" using o(2) k(2) v(2) unfolding refs' by simp
    show "well_typed h ?obj'" using o(3) k(1) v(1) by auto
    show "\<forall>p\<in>set (refs ?obj') - set (refs ?obj). unreferenced (length h0) h p"
      using k(3) v(3) unfolding refs' by auto
  qed
qed

lemma profile_merge_iter_spec:
  assumes inv: "heap_inv h0 h" and d: "length h0 \<le> d" "kind_at h d = Some 2"
    and src: "kind_at h0 (fst elem) = Some 0" "src_property h0 (snd elem)"
  shows "\<exists>h'. s_profile_merge_iter_store d elem h = Some h' \<and> heap_inv h0 h' \<and> structs_kept h h'"
proof -
  let ?n = "length h0"
  from src(1) obtain key where "load_string h0 (fst elem) = Some key"
    using load_string_kind by blast
  then have ls: "load_string h (fst elem) = Some key"
    by (rule load_string_prefix [OF heap_inv_prefix [OF inv]])
  from d(2) obtain obj where obj: "load h d = Some obj" "kind obj = 2"
    by (auto simp: kind_at_def)
  then obtain name f props where ld: "load h d = Some (Profile_object name f props)"
    by (cases obj) simp_all
  then have lp: "load_profile h d = Some (name, f, props)"
    by (simp add: load_profile_def)
  note o = heap_inv_obj [OF inv d(1) ld]
  from o(3) have keys: "\<forall>elem\<in>set props. kind_at h (fst elem) = Some 0" by simp
  from find_store_total [OF keys, of key] obtain r
    where r: "aws_hash_table_find_store h props key = Some r"
      and mem: "\<forall>elem. r = Some elem \<longrightarrow> elem \<in> set props"
    by blast
  show ?thesis
  proof (cases r)
    case (Some dest_elem)
    with mem have "dest_elem \<in> set props" by simp
    then have "snd dest_elem \<in> set (refs (Profile_object name f props))"
      "kind_at h (snd dest_elem) = Some 1"
      using o(3) by (auto simp: set_table_refs)
    with o(2) have "?n \<le> snd dest_elem" by blast
    from property_merge_spec [OF inv this \<open>kind_at h (snd dest_elem) = Some 1\<close> src(2)]
    obtain h' where "s_profile_property_merge_store h (snd dest_elem) (snd elem) = Some h'"
      "heap_inv h0 h'" "structs_kept h h'" by blast
    with ls lp r Some show ?thesis
      by (simp add: s_profile_merge_iter_store_def)
  next
    case None
    let ?dk = "length h" and ?dp = "length h + 1"
    let ?h1 = "h @ [Some (String_object key)]"
    let ?P = "Property_object (Some (length ?h1 + 2)) (Some (length ?h1 + 1)) (length ([]::string) = 0) []"
    let ?ext = "[Some ?P, Some (String_object []), Some (String_object key)]"
    let ?h2 = "?h1 @ ?ext"
    let ?obj' = "Profile_object name f (props @ [(?dk, length ?h1)])"
    let ?h4 = "?h2[d := Some ?obj']"
    have inv1: "heap_inv h0 ?h1" by (rule heap_inv_append_string [OF inv])
    have new1: "aws_string_new_from_string h (fst elem) = Some (?dk, ?h1)"
      by (rule string_new_from_string [OF ls])
    have lk1: "load_string ?h1 ?dk = Some key"
      by (simp add: load_string_def load_def)
    then have lk2: "load_string ?h2 ?dk = Some key" by (rule load_string_append)
    note pn = property_new_spec [OF inv1, where name = key and val = "[]"]
    have find2: "aws_hash_table_find_store ?h2 props key = Some None"
      using find_store_append [OF keys, of "[Some (String_object key)] @ ?ext" key] r None
      by simp
    have put: "aws_hash_table_put_store aws_hash_callback_string_destroy
        s_profile_property_destroy_store ?h2 props ?dk (length ?h1)
        = Some (props @ [(?dk, length ?h1)], ?h2)"
      by (rule put_store_new [OF lk2 find2])
    from ld have "load ?h1 d = Some (Profile_object name f props)" by (rule load_append_Some)
    then have ld2: "load ?h2 d = Some (Profile_object name f props)" by (rule load_append_Some)
    then have kd2: "kind_at ?h2 d = Some 2" by (simp add: kind_at_def)
    have store: "store_object ?h2 d ?obj' = Some ?h4" by (rule store_object_live [OF kd2])
    have kk: "kind_at ?h2 ?dk = Some 0"
      using lk2 load_string_kind by blast
    have kp: "kind_at ?h2 (length ?h1) = Some 1"
      by (simp add: kind_at_def load_def nth_append)
    have uk: "unreferenced ?n ?h2 ?dk"
    proof -
      have "unreferenced ?n h ?dk"
        by (rule unreferenced_fresh [OF heap_inv_wf [OF inv]]) simp
      then have "unreferenced ?n ?h1 ?dk" by (rule unreferenced_append) simp
      then show ?thesis
        by (rule unreferenced_append_list) (auto simp: opt_refs_def table_refs_Nil)
    qed
    have up: "unreferenced ?n ?h2 (length ?h1)"
    proof -
      have "unreferenced ?n ?h1 (length ?h1)"
        by (rule unreferenced_fresh [OF heap_inv_wf [OF inv1]]) simp
      then show ?thesis
        by (rule unreferenced_append_list) (auto simp: opt_refs_def table_refs_Nil)
    qed
    have len: "?n \<le> ?dk" "?n \<le> length ?h1" using heap_inv_length [OF inv] by simp_all
    have inv4: "heap_inv h0 ?h4"
      by (rule heap_inv_add_property_entry [OF pn(2) d(1) ld2 kk len(1) uk kp len(2) up])
    have st4: "structs_kept h ?h4"
      using structs_kept_append_list [of h "[Some (String_object key)]"]
        structs_kept_append_list [of ?h1 ?ext] structs_kept_update [OF ld2, of ?obj']
      by (auto intro: structs_kept_trans)
    have "structs_kept ?h2 ?h4" by (rule structs_kept_update [OF ld2]) simp
    from structs_kept_kind [OF this kp] have kp4: "kind_at ?h4 (length ?h1) = Some 1" by simp
    from property_merge_spec [OF inv4 len(2) kp4 src(2)]
    obtain h' where "s_profile_property_merge_store ?h4 (length ?h1) (snd elem) = Some h'"
      "heap_inv h0 h'" "structs_kept ?h4 h'" by blast
    with ls lp r None new1 lk1 pn(1) put store st4 show ?thesis
      by (auto simp: s_profile_merge_iter_store_def intro: structs_kept_trans)
  qed
qed


definition src_profile :: "heap \<Rightarrow> addr \<Rightarrow> bool" where
  "src_profile h0 a =
     (\<exists>name f props. load h0 a = Some (Profile_object name f props) \<and>
        (\<forall>elem\<in>set props. kind_at h0 (fst elem) = Some 0 \<and> src_property h0 (snd elem)))"

definition src_collection :: "heap \<Rightarrow> addr \<Rightarrow> bool" where
  "src_collection h0 a =
     (\<exists>source profs. load h0 a = Some (Collection_object source profs) \<and>
        (\<forall>elem\<in>set profs. kind_at h0 (fst elem) = Some 0 \<and> src_profile h0 (snd elem)))"

lemma profile_merge_spec:
  assumes inv: "heap_inv h0 h" and d: "length h0 \<le> d" "kind_at h d = Some 2"
    and src: "src_profile h0 source"
  shows "\<exists>h'. s_profile_merge_store h d source = Some h' \<and> heap_inv h0 h' \<and> structs_kept h h'"
proof -
  from src obtain sname sf sprops
    where ls0: "load h0 source = Some (Profile_object sname sf sprops)"
      and ss: "\<forall>elem\<in>set sprops. kind_at h0 (fst elem) = Some 0 \<and> src_property h0 (snd elem)"
    unfolding src_profile_def by blast
  have ls: "load_profile h source = Some (sname, sf, sprops)"
    using load_prefix [OF heap_inv_prefix [OF inv] ls0] by (simp add: load_profile_def)
  from d(2) obtain obj where obj: "load h d = Some obj" "kind obj = 2"
    by (auto simp: kind_at_def)
  then obtain name f props where ld: "load h d = Some (Profile_object name f props)"
    by (cases obj) simp_all
  then have lp: "load_profile h d = Some (name, f, props)"
    by (simp add: load_profile_def)
  let ?obj' = "Profile_object name sf props"
  let ?h1 = "h[d := Some ?obj']"
  have store: "store_object h d ?obj' = Some ?h1" by (rule store_object_live [OF d(2)])
  have inv1: "heap_inv h0 ?h1"
    by (rule heap_inv_update_same_refs [OF inv d(1) ld]) simp_all
  have st1: "structs_kept h ?h1" by (rule structs_kept_update [OF ld]) simp
  have "\<exists>h'. fold_option (s_profile_merge_iter_store d) sprops ?h1 = Some h' \<and>
           heap_inv h0 h' \<and> structs_kept ?h1 h'"
  proof (rule fold_option_stable [where hstart = h, OF _ inv1 st1])
    fix x hx assume x: "x \<in> set sprops" and hx: "heap_inv h0 hx" "structs_kept h hx"
    from structs_kept_kind [OF hx(2) d(2)] have "kind_at hx d = Some 2" by simp
    with ss x show "\<exists>h'. s_profile_merge_iter_store d x hx = Some h' \<and> heap_inv h0 h' \<and> structs_kept hx h'"
      by (intro profile_merge_iter_spec [OF hx(1) d(1)]) auto
  qed
  with ls lp store st1 show ?thesis
    by (auto simp: s_profile_merge_store_def intro: structs_kept_trans)
qed

lemma profile_new_spec:
  assumes inv: "heap_inv h0 h"
  shows "aws_profile_new_store h name has_prefix
         = (length h, h @ [Some (Profile_object (Some (length h + 1)) has_prefix []),
                           Some (String_object name)])"
    and "heap_inv h0 (h @ [Some (Profile_object (Some (length h + 1)) has_prefix []),
                      Some (String_object name)])"
proof -
  let ?z = "Profile_object None False []"
  let ?p = "Profile_object (Some (length h + 1)) has_prefix []"
  let ?a = "(h @ [Some ?z]) @ [Some (String_object name)]"
  have eq: "?a[length h := Some ?p] = h @ [Some ?p, Some (String_object name)]"
    by (simp add: list_update_append)
  show "aws_profile_new_store h name has_prefix
         = (length h, h @ [Some ?p, Some (String_object name)])"
    by (simp add: aws_profile_new_store_def aws_mem_acquire_def
        aws_string_new_from_array_def list_update_append)
  have inv1: "heap_inv h0 (h @ [Some ?z])"
    by (rule heap_inv_append [OF inv]) (simp_all add: opt_refs_def table_refs_Nil)
  have inv2: "heap_inv h0 ?a" by (rule heap_inv_append_string [OF inv1])
  have lz: "load ?a (length h) = Some ?z" by (simp add: load_def nth_append)
  have un1: "unreferenced (length h0) ?a (length h + 1)"
  proof -
    have "unreferenced (length h0) (h @ [Some ?z]) (length h + 1)"
      by (rule unreferenced_fresh [OF heap_inv_wf [OF inv1]]) simp
    then show ?thesis
      by (rule unreferenced_append) simp
  qed
  have "heap_inv h0 (?a[length h := Some ?p])"
  proof (rule heap_inv_update [OF inv2 heap_inv_length [OF inv] lz])
    show "kind ?p = kind ?z" by simp
    show "distinct (refs ?p)" by (simp add: opt_refs_def table_refs_Nil)
    show "\<forall>p\<in>set (refs ?p). length h0 \<le> p"
      using heap_inv_length [OF inv] by (simp add: opt_refs_def table_refs_Nil)
    show "well_typed ?a ?p"
      by (simp add: opt_refs_def table_refs_Nil kind_at_def load_def nth_append)
    show "\<forall>p\<in>set (refs ?p) - set (refs ?z). unreferenced (length h0) ?a p"
      using un1 by (simp add: opt_refs_def table_refs_Nil)
  qed
  then show "heap_inv h0 (h @ [Some ?p, Some (String_object name)])"
    unfolding eq .
qed

lemma collection_merge_iter_spec:
  assumes inv: "heap_inv h0 h" and d: "length h0 \<le> d" "kind_at h d = Some 3"
    and src: "kind_at h0 (fst elem) = Some 0" "src_profile h0 (snd elem)"
  shows "\<exists>h'. s_profile_collection_merge_iter_store d elem h = Some h' \<and> heap_inv h0 h' \<and> structs_kept h h'"
proof -
  let ?n = "length h0"
  from src(1) obtain key where "load_string h0 (fst elem) = Some key"
    using load_string_kind by blast
  then have ls: "load_string h (fst elem) = Some key"
    by (rule load_string_prefix [OF heap_inv_prefix [OF inv]])
  from src(2) obtain sname sf sprops
    where "load h0 (snd elem) = Some (Profile_object sname sf sprops)"
    unfolding src_profile_def by blast
  then have lsp: "load_profile h (snd elem) = Some (sname, sf, sprops)"
    using load_prefix [OF heap_inv_prefix [OF inv]] by (simp add: load_profile_def)
  from d(2) obtain obj where obj: "load h d = Some obj" "kind obj = 3"
    by (auto simp: kind_at_def)
  then obtain source profs where ld: "load h d = Some (Collection_object source profs)"
    by (cases obj) simp_all
  then have lp: "load_collection h d = Some (source, profs)"
    by (simp add: load_collection_def)
  note o = heap_inv_obj [OF inv d(1) ld]
  from o(3) have keys: "\<forall>elem\<in>set profs. kind_at h (fst elem) = Some 0" by simp
  from find_store_total [OF keys, of key] obtain r
    where r: "aws_hash_table_find_store h profs key = Some r"
      and mem: "\<forall>elem. r = Some elem \<longrightarrow> elem \<in> set profs"
    by blast
  show ?thesis
  proof (cases r)
    case (Some dest_elem)
    with mem have "dest_elem \<in> set profs" by simp
    then have "snd dest_elem \<in> set (refs (Collection_object source profs))"
      "kind_at h (snd dest_elem) = Some 2"
      using o(3) by (auto simp: set_table_refs)
    with o(2) have "?n \<le> snd dest_elem" by blast
    from profile_merge_spec [OF inv this \<open>kind_at h (snd dest_elem) = Some 2\<close> src(2)]
    obtain h' where "s_profile_merge_store h (snd dest_elem) (snd elem) = Some h'"
      "heap_inv h0 h'" "structs_kept h h'" by blast
    with ls lsp lp r Some show ?thesis
      by (simp add: s_profile_collection_merge_iter_store_def)
  next
    case None
    let ?dk = "length h"
    let ?h1 = "h @ [Some (String_object key)]"
    let ?P = "Profile_object (Some (length ?h1 + 1)) sf []"
    let ?ext = "[Some ?P, Some (String_object key)]"
    let ?h2 = "?h1 @ ?ext"
    let ?obj' = "Collection_object source (profs @ [(?dk, length ?h1)])"
    let ?h4 = "?h2[d := Some ?obj']"
    have inv1: "heap_inv h0 ?h1" by (rule heap_inv_append_string [OF inv])
    have new1: "aws_string_new_from_string h (fst elem) = Some (?dk, ?h1)"
      by (rule string_new_from_string [OF ls])
    have lk1: "load_string ?h1 ?dk = Some key"
      by (simp add: load_string_def load_def)
    then have lk2: "load_string ?h2 ?dk = Some key" by (rule load_string_append)
    note pn = profile_new_spec [OF inv1, where name = key and has_prefix = sf]
    have find2: "aws_hash_table_find_store ?h2 profs key = Some None"
      using find_store_append [OF keys, of "[Some (String_object key)] @ ?ext" key] r None
      by simp
    have put: "aws_hash_table_put_store aws_hash_callback_string_destroy
        aws_profile_destroy_store ?h2 profs ?dk (length ?h1)
        = Some (profs @ [(?dk, length ?h1)], ?h2)"
      by (rule put_store_new [OF lk2 find2])
    from ld have "load ?h1 d = Some (Collection_object source profs)" by (rule load_append_Some)
    then have ld2: "load ?h2 d = Some (Collection_object source profs)" by (rule load_append_Some)
    then have kd2: "kind_at ?h2 d = Some 3" by (simp add: kind_at_def)
    have store: "store_object ?h2 d ?obj' = Some ?h4" by (rule store_object_live [OF kd2])
    have kk: "kind_at ?h2 ?dk = Some 0"
      using lk2 load_string_kind by blast
    have kp: "kind_at ?h2 (length ?h1) = Some 2"
      by (simp add: kind_at_def load_def nth_append)
    have uk: "unreferenced ?n ?h2 ?dk"
    proof -
      have "unreferenced ?n h ?dk"
        by (rule unreferenced_fresh [OF heap_inv_wf [OF inv]]) simp
      then have "unreferenced ?n ?h1 ?dk" by (rule unreferenced_append) simp
      then show ?thesis
        by (rule unreferenced_append_list) (auto simp: opt_refs_def table_refs_Nil)
    qed
    have up: "unreferenced ?n ?h2 (length ?h1)"
    proof -
      have "unreferenced ?n ?h1 (length ?h1)"
        by (rule unreferenced_fresh [OF heap_inv_wf [OF inv1]]) simp
      then show ?thesis
        by (rule unreferenced_append_list) (auto simp: opt_refs_def table_refs_Nil)
    qed
    have len: "?n \<le> ?dk" "?n \<le> length ?h1" using heap_inv_length [OF inv] by simp_all
    have inv4: "heap_inv h0 ?h4"
      by (rule heap_inv_add_profile_entry [OF pn(2) d(1) ld2 kk len(1) uk kp len(2) up])
    have st4: "structs_kept h ?h4"
      using structs_kept_append_list [of h "[Some (String_object key)]"]
        structs_kept_append_list [of ?h1 ?ext] structs_kept_update [OF ld2, of ?obj']
      by (auto intro: structs_kept_trans)
    have "structs_kept ?h2 ?h4" by (rule structs_kept_update [OF ld2]) simp
    from structs_kept_kind [OF this kp] have kp4: "kind_at ?h4 (length ?h1) = Some 2" by simp
    from profile_merge_spec [OF inv4 len(2) kp4 src(2)]
    obtain h' where "s_profile_merge_store ?h4 (length ?h1) (snd elem) = Some h'"
      "heap_inv h0 h'" "structs_kept ?h4 h'" by blast
    with ls lsp lp r None new1 lk1 pn(1) put store st4 show ?thesis
      by (auto simp: s_profile_collection_merge_iter_store_def intro: structs_kept_trans)
  qed
qed

lemma collection_merge_spec:
  assumes inv: "heap_inv h0 h" and d: "length h0 \<le> d" "kind_at h d = Some 3"
    and src: "src_collection h0 source"
  shows "\<exists>h'. s_profile_collection_merge_store h d source = Some h' \<and> heap_inv h0 h' \<and> structs_kept h h'"
proof -
  from src obtain ssource sprofs
    where ls0: "load h0 source = Some (Collection_object ssource sprofs)"
      and ss: "\<forall>elem\<in>set sprofs. kind_at h0 (fst elem) = Some 0 \<and> src_profile h0 (snd elem)"
    unfolding src_collection_def by blast
  have ls: "load_collection h source = Some (ssource, sprofs)"
    using load_prefix [OF heap_inv_prefix [OF inv] ls0] by (simp add: load_collection_def)
  have "\<exists>h'. fold_option (s_profile_collection_merge_iter_store d) sprofs h = Some h' \<and>
           heap_inv h0 h' \<and> structs_kept h h'"
  proof (rule fold_option_stable [where hstart = h, OF _ inv structs_kept_refl])
    fix x hx assume x: "x \<in> set sprofs" and hx: "heap_inv h0 hx" "structs_kept h hx"
    from structs_kept_kind [OF hx(2) d(2)] have "kind_at hx d = Some 3" by simp
    with ss x show "\<exists>h'. s_profile_collection_merge_iter_store d x hx = Some h' \<and>
        heap_inv h0 h' \<and> structs_kept hx h'"
      by (intro collection_merge_iter_spec [OF hx(1) d(1)]) auto
  qed
  with ls show ?thesis
    by (simp add: s_profile_collection_merge_store_def)
qed


text \<open>
  What a store holds at an address, read as a value of the data model: the strings by
  their bytes, the tables entry by entry. The result is \<open>None\<close> when an address on the
  way is not a live cell of the expected kind.
\<close>

definition load_string_opt :: "heap \<Rightarrow> addr option \<Rightarrow> string option" where
  "load_string_opt h p = (case p of None \<Rightarrow> None | Some a \<Rightarrow> load_string h a)"

definition sub_property_at :: "heap \<Rightarrow> addr \<times> addr \<Rightarrow> (string \<times> string) option" where
  "sub_property_at h elem =
     do {
       key \<leftarrow> load_string h (fst elem);
       val \<leftarrow> load_string h (snd elem);
       Some (key, val)
     }"

definition property_at :: "heap \<Rightarrow> addr \<Rightarrow> aws_profile_property option" where
  "property_at h a =
     do {
       (name, val, empty_valued, subs) \<leftarrow> load_property h a;
       name_bytes \<leftarrow> load_string_opt h name;
       value_bytes \<leftarrow> load_string_opt h val;
       table \<leftarrow> those (map (sub_property_at h) subs);
       Some \<lparr>property_name = name_bytes, property_value = value_bytes,
             is_empty_valued = empty_valued, sub_properties = table\<rparr>
     }"

definition property_entry_at ::
    "heap \<Rightarrow> addr \<times> addr \<Rightarrow> (string \<times> aws_profile_property) option" where
  "property_entry_at h elem =
     do {
       key \<leftarrow> load_string h (fst elem);
       property \<leftarrow> property_at h (snd elem);
       Some (key, property)
     }"

definition profile_at :: "heap \<Rightarrow> addr \<Rightarrow> aws_profile option" where
  "profile_at h a =
     do {
       (name, has_prefix, props) \<leftarrow> load_profile h a;
       name_bytes \<leftarrow> load_string_opt h name;
       table \<leftarrow> those (map (property_entry_at h) props);
       Some \<lparr>profile_name = name_bytes, has_profile_prefix = has_prefix, properties = table\<rparr>
     }"

definition profile_entry_at :: "heap \<Rightarrow> addr \<times> addr \<Rightarrow> (string \<times> aws_profile) option" where
  "profile_entry_at h elem =
     do {
       key \<leftarrow> load_string h (fst elem);
       profile \<leftarrow> profile_at h (snd elem);
       Some (key, profile)
     }"

definition collection_at :: "heap \<Rightarrow> addr \<Rightarrow> aws_profile_collection option" where
  "collection_at h a =
     do {
       (source, profs) \<leftarrow> load_collection h a;
       table \<leftarrow> those (map (profile_entry_at h) profs);
       Some \<lparr>profile_source = source, profiles = table\<rparr>
     }"

lemma those_map_Some:
  "those (map f xs) = Some ys \<Longrightarrow> x \<in> set xs \<Longrightarrow> \<exists>y. f x = Some y"
  by (induction xs arbitrary: ys) (auto split: option.splits)

lemma those_map_mono:
  "those (map f xs) = Some ys \<Longrightarrow> (\<And>x y. x \<in> set xs \<Longrightarrow> f x = Some y \<Longrightarrow> g x = Some y) \<Longrightarrow>
   those (map g xs) = Some ys"
proof (induction xs arbitrary: ys)
  case Nil
  then show ?case by simp
next
  case (Cons x xs)
  from Cons.prems(1) obtain y zs where y: "f x = Some y" "those (map f xs) = Some zs" "ys = y # zs"
    by (auto split: option.splits)
  from Cons.prems(2) [of x y] y(1) have "g x = Some y" by simp
  moreover from Cons.IH [OF y(2)] Cons.prems(2) have "those (map g xs) = Some zs" by simp
  ultimately show ?case using y(3) by simp
qed


definition heap_extends :: "heap \<Rightarrow> heap \<Rightarrow> bool" where
  "heap_extends h h' = (\<forall>a obj. load h a = Some obj \<longrightarrow> load h' a = Some obj)"

lemma heap_extends_prefix: "take (length h) h' = h \<Longrightarrow> heap_extends h h'"
  unfolding heap_extends_def by (blast intro: load_prefix)

lemma load_string_extends:
  "heap_extends h h' \<Longrightarrow> load_string h a = Some bytes \<Longrightarrow> load_string h' a = Some bytes"
  by (auto simp: heap_extends_def load_string_def split: option.splits heap_object.splits)

lemma bind_load_string_extends:
  "heap_extends h h' \<Longrightarrow> load_string_opt h p = Some bytes \<Longrightarrow>
   load_string_opt h' p = Some bytes"
  by (cases p) (auto simp: load_string_opt_def dest: load_string_extends)

lemma load_property_extends:
  "heap_extends h h' \<Longrightarrow> load_property h a = Some r \<Longrightarrow> load_property h' a = Some r"
  by (auto simp: heap_extends_def load_property_def split: option.splits heap_object.splits)

lemma load_profile_extends:
  "heap_extends h h' \<Longrightarrow> load_profile h a = Some r \<Longrightarrow> load_profile h' a = Some r"
  by (auto simp: heap_extends_def load_profile_def split: option.splits heap_object.splits)

lemma load_collection_extends:
  "heap_extends h h' \<Longrightarrow> load_collection h a = Some r \<Longrightarrow> load_collection h' a = Some r"
  by (auto simp: heap_extends_def load_collection_def split: option.splits heap_object.splits)

lemma sub_property_at_extends:
  "heap_extends h h' \<Longrightarrow> sub_property_at h elem = Some r \<Longrightarrow> sub_property_at h' elem = Some r"
  by (auto simp: sub_property_at_def bind_eq_Some_conv dest: load_string_extends)

lemma property_at_extends:
  assumes ext: "heap_extends h h'" and p: "property_at h a = Some r"
  shows "property_at h' a = Some r"
proof -
  from p obtain name val e subs nb vb t
    where l: "load_property h a = Some (name, val, e, subs)"
      and n: "load_string_opt h name = Some nb"
      and v: "load_string_opt h val = Some vb"
      and t: "those (map (sub_property_at h) subs) = Some t"
      and r: "r = \<lparr>property_name = nb, property_value = vb, is_empty_valued = e,
                  sub_properties = t\<rparr>"
    by (auto simp: property_at_def bind_eq_Some_conv)
  from those_map_mono [OF t, of "sub_property_at h'"] ext
  have "those (map (sub_property_at h') subs) = Some t"
    by (blast intro: sub_property_at_extends)
  with load_property_extends [OF ext l] bind_load_string_extends [OF ext n]
    bind_load_string_extends [OF ext v] r
  show ?thesis by (simp add: property_at_def)
qed

lemma property_entry_at_extends:
  "heap_extends h h' \<Longrightarrow> property_entry_at h elem = Some r \<Longrightarrow> property_entry_at h' elem = Some r"
  by (auto simp: property_entry_at_def bind_eq_Some_conv
      dest: load_string_extends property_at_extends)

lemma profile_at_extends:
  assumes ext: "heap_extends h h'" and p: "profile_at h a = Some r"
  shows "profile_at h' a = Some r"
proof -
  from p obtain name f props nb t
    where l: "load_profile h a = Some (name, f, props)"
      and n: "load_string_opt h name = Some nb"
      and t: "those (map (property_entry_at h) props) = Some t"
      and r: "r = \<lparr>profile_name = nb, has_profile_prefix = f, properties = t\<rparr>"
    by (auto simp: profile_at_def bind_eq_Some_conv)
  from those_map_mono [OF t, of "property_entry_at h'"] ext
  have "those (map (property_entry_at h') props) = Some t"
    by (blast intro: property_entry_at_extends)
  with load_profile_extends [OF ext l] bind_load_string_extends [OF ext n] r
  show ?thesis by (simp add: profile_at_def)
qed

lemma profile_entry_at_extends:
  "heap_extends h h' \<Longrightarrow> profile_entry_at h elem = Some r \<Longrightarrow> profile_entry_at h' elem = Some r"
  by (auto simp: profile_entry_at_def bind_eq_Some_conv
      dest: load_string_extends profile_at_extends)

lemma collection_at_extends:
  assumes ext: "heap_extends h h'" and p: "collection_at h a = Some r"
  shows "collection_at h' a = Some r"
proof -
  from p obtain source profs t
    where l: "load_collection h a = Some (source, profs)"
      and t: "those (map (profile_entry_at h) profs) = Some t"
      and r: "r = \<lparr>profile_source = source, profiles = t\<rparr>"
    by (auto simp: collection_at_def bind_eq_Some_conv)
  from those_map_mono [OF t, of "profile_entry_at h'"] ext
  have "those (map (profile_entry_at h') profs) = Some t"
    by (blast intro: profile_entry_at_extends)
  with load_collection_extends [OF ext l] r
  show ?thesis by (simp add: collection_at_def)
qed

lemma load_property_Some:
  "load_property h a = Some (name, val, e, subs) \<Longrightarrow> load h a = Some (Property_object name val e subs)"
  by (auto simp: load_property_def split: option.splits heap_object.splits)

lemma load_profile_Some:
  "load_profile h a = Some (name, f, props) \<Longrightarrow> load h a = Some (Profile_object name f props)"
  by (auto simp: load_profile_def split: option.splits heap_object.splits)

lemma load_collection_Some:
  "load_collection h a = Some (source, profs) \<Longrightarrow> load h a = Some (Collection_object source profs)"
  by (auto simp: load_collection_def split: option.splits heap_object.splits)

lemma property_at_src:
  assumes "property_at h a = Some r"
  shows "src_property h a"
proof -
  from assms obtain name val e subs nb vb t
    where l: "load_property h a = Some (name, val, e, subs)"
      and v: "load_string_opt h val = Some vb"
      and t: "those (map (sub_property_at h) subs) = Some t"
    by (auto simp: property_at_def bind_eq_Some_conv)
  from v have "\<forall>x\<in>set (opt_refs val). kind_at h x = Some 0"
    using load_string_kind by (cases val) (auto simp: opt_refs_def load_string_opt_def)
  moreover have "\<forall>elem\<in>set subs. kind_at h (fst elem) = Some 0 \<and> kind_at h (snd elem) = Some 0"
  proof
    fix elem assume "elem \<in> set subs"
    from those_map_Some [OF t this] obtain y where "sub_property_at h elem = Some y" by blast
    then show "kind_at h (fst elem) = Some 0 \<and> kind_at h (snd elem) = Some 0"
      using load_string_kind by (auto simp: sub_property_at_def bind_eq_Some_conv)
  qed
  ultimately show ?thesis
    using load_property_Some [OF l] unfolding src_property_def by blast
qed

lemma profile_at_src:
  assumes "profile_at h a = Some r"
  shows "src_profile h a"
proof -
  from assms obtain name f props t
    where l: "load_profile h a = Some (name, f, props)"
      and t: "those (map (property_entry_at h) props) = Some t"
    by (auto simp: profile_at_def bind_eq_Some_conv)
  have "\<forall>elem\<in>set props. kind_at h (fst elem) = Some 0 \<and> src_property h (snd elem)"
  proof
    fix elem assume "elem \<in> set props"
    from those_map_Some [OF t this] obtain y where "property_entry_at h elem = Some y" by blast
    then show "kind_at h (fst elem) = Some 0 \<and> src_property h (snd elem)"
      using load_string_kind property_at_src
      by (auto simp: property_entry_at_def bind_eq_Some_conv)
  qed
  then show ?thesis
    using load_profile_Some [OF l] unfolding src_profile_def by blast
qed

lemma collection_at_src:
  assumes "collection_at h a = Some r"
  shows "src_collection h a"
proof -
  from assms obtain source profs t
    where l: "load_collection h a = Some (source, profs)"
      and t: "those (map (profile_entry_at h) profs) = Some t"
    by (auto simp: collection_at_def bind_eq_Some_conv)
  have "\<forall>elem\<in>set profs. kind_at h (fst elem) = Some 0 \<and> src_profile h (snd elem)"
  proof
    fix elem assume "elem \<in> set profs"
    from those_map_Some [OF t this] obtain y where "profile_entry_at h elem = Some y" by blast
    then show "kind_at h (fst elem) = Some 0 \<and> src_profile h (snd elem)"
      using load_string_kind profile_at_src
      by (auto simp: profile_entry_at_def bind_eq_Some_conv)
  qed
  then show ?thesis
    using load_collection_Some [OF l] unfolding src_collection_def by blast
qed


lemma new_from_merge_spec:
  assumes cfg: "\<forall>c\<in>set_option config_profiles. src_collection h c"
    and cred: "\<forall>c\<in>set_option credentials_profiles. src_collection h c"
  shows "\<exists>h'. aws_profile_collection_new_from_merge_store h config_profiles credentials_profiles
              = Some (length h, h') \<and>
           heap_inv h h' \<and> kind_at h' (length h) = Some 3"
proof -
  let ?m = "length h"
  let ?h1 = "h @ [Some (Collection_object AWS_PST_NONE [])]"
  have inv1: "heap_inv h ?h1"
    by (rule heap_inv_append [OF heap_inv_initial]) (simp_all add: table_refs_Nil)
  have k1: "kind_at ?h1 ?m = Some 3" by (simp add: kind_at_def load_def)
  have count: "\<exists>n. (case p of None \<Rightarrow> Some 0
        | Some c \<Rightarrow> map_option (\<lambda>c. aws_hash_table_get_entry_count_store (snd c))
                      (load_collection ?h1 c)) = Some n"
    if "\<forall>c\<in>set_option p. src_collection h c" for p
  proof (cases p)
    case None
    then show ?thesis by simp
  next
    case (Some c)
    with that obtain source profs where "load h c = Some (Collection_object source profs)"
      unfolding src_collection_def by auto
    then have "load ?h1 c = Some (Collection_object source profs)" by (rule load_append_Some)
    with Some show ?thesis by (simp add: load_collection_def)
  qed
  have merge: "\<exists>h'. (case p of None \<Rightarrow> Some hx
        | Some c \<Rightarrow> s_profile_collection_merge_store hx ?m c) = Some h' \<and>
        heap_inv h h' \<and> structs_kept hx h'"
    if "\<forall>c\<in>set_option p. src_collection h c" "heap_inv h hx" "kind_at hx ?m = Some 3" for p hx
  proof (cases p)
    case None
    with that structs_kept_refl show ?thesis by simp
  next
    case (Some c)
    with that(1) have "src_collection h c" by simp
    from collection_merge_spec [OF that(2) _ that(3) this] Some show ?thesis by simp
  qed
  from count [OF cfg] obtain n1 where n1: "(case config_profiles of None \<Rightarrow> Some 0
        | Some c \<Rightarrow> map_option (\<lambda>c. aws_hash_table_get_entry_count_store (snd c))
                      (load_collection ?h1 c)) = Some n1" by blast
  from count [OF cred] obtain n2 where n2: "(case credentials_profiles of None \<Rightarrow> Some 0
        | Some c \<Rightarrow> map_option (\<lambda>c. aws_hash_table_get_entry_count_store (snd c))
                      (load_collection ?h1 c)) = Some n2" by blast
  from merge [OF cfg inv1 k1] obtain h2
    where h2: "(case config_profiles of None \<Rightarrow> Some ?h1
        | Some c \<Rightarrow> s_profile_collection_merge_store ?h1 ?m c) = Some h2"
      "heap_inv h h2" "structs_kept ?h1 h2" by blast
  from structs_kept_kind [OF h2(3) k1] have k2: "kind_at h2 ?m = Some 3" by simp
  from merge [OF cred h2(2) k2] obtain h3
    where h3: "(case credentials_profiles of None \<Rightarrow> Some h2
        | Some c \<Rightarrow> s_profile_collection_merge_store h2 ?m c) = Some h3"
      "heap_inv h h3" "structs_kept h2 h3" by blast
  from structs_kept_kind [OF h3(3) k2] have k3: "kind_at h3 ?m = Some 3" by simp
  have "aws_profile_collection_new_from_merge_store h config_profiles credentials_profiles
      = Some (?m, h3)"
    by (simp add: aws_profile_collection_new_from_merge_store_def aws_mem_acquire_def
        n1 n2 h2(1) h3(1))
  with h3(2) k3 show ?thesis by blast
qed

text \<open>
  C6. Given the addresses of a config collection and of a credentials collection, either
  of which may be \<open>NULL\<close>, in a store where each address given leads to a collection
  (every address on the way from it is a live cell of its kind), the top-level merge
  returns, and what it returns is an address that held nothing before the call and holds a
  collection after it. Every cell that the store had before the call holds after the call
  what it held before: the merge writes and releases only cells it has acquired itself. So
  each input collection reads after the call as it read before, with every profile,
  prefix flag, property, value and sub-property.
\<close>

theorem merge_leaves_inputs_unchanged:
  assumes "\<forall>c\<in>set_option config_profiles \<union> set_option credentials_profiles.
             collection_at h c \<noteq> None"
  shows "\<exists>h'. aws_profile_collection_new_from_merge_store h config_profiles credentials_profiles
              = Some (length h, h') \<and>
           load h (length h) = None \<and>
           (\<exists>source profs. load h' (length h) = Some (Collection_object source profs)) \<and>
           take (length h) h' = h \<and>
           (\<forall>c\<in>set_option config_profiles \<union> set_option credentials_profiles.
              collection_at h' c = collection_at h c)"
proof -
  from assms have "\<forall>c\<in>set_option config_profiles. src_collection h c"
    "\<forall>c\<in>set_option credentials_profiles. src_collection h c"
    using collection_at_src by auto
  from new_from_merge_spec [OF this] obtain h'
    where run: "aws_profile_collection_new_from_merge_store h config_profiles credentials_profiles
              = Some (length h, h')"
      and inv: "heap_inv h h'" and k: "kind_at h' (length h) = Some 3"
    by blast
  from k obtain obj where "load h' (length h) = Some obj" "kind obj = 3"
    by (auto simp: kind_at_def)
  then have coll: "\<exists>source profs. load h' (length h) = Some (Collection_object source profs)"
    by (cases obj) simp_all
  have pre: "take (length h) h' = h" by (rule heap_inv_prefix [OF inv])
  have "collection_at h' c = collection_at h c"
    if "c \<in> set_option config_profiles \<union> set_option credentials_profiles" for c
  proof -
    from assms that obtain r where "collection_at h c = Some r" by auto
    with collection_at_extends [OF heap_extends_prefix [OF pre]] show ?thesis by simp
  qed
  with run coll pre show ?thesis by (auto simp: load_def)
qed


text \<open>
  The two collections of the example store as values, and the cells that merging them
  adds to the store: the merged collection at address 20 with its profile, its property
  and copies of all strings; the cells released on the way are empty.
\<close>

definition example_store_config :: aws_profile_collection where
  "example_store_config =
     \<lparr>profile_source = AWS_PST_CONFIG,
      profiles =
        [(''foo'',
          \<lparr>profile_name = ''foo'', has_profile_prefix = True,
             properties =
               [(''region'',
                 \<lparr>property_name = ''region'', property_value = ''us-west-2'',
                    is_empty_valued = False, sub_properties = [(''k'', ''v'')]\<rparr>)]\<rparr>)]\<rparr>"

definition example_store_credentials :: aws_profile_collection where
  "example_store_credentials =
     \<lparr>profile_source = AWS_PST_CREDENTIALS,
      profiles =
        [(''foo'',
          \<lparr>profile_name = ''foo'', has_profile_prefix = False,
             properties =
               [(''region'',
                 \<lparr>property_name = ''region'', property_value = ''eu-west-1'',
                    is_empty_valued = False, sub_properties = [(''k'', ''w'')]\<rparr>)]\<rparr>)]\<rparr>"

definition example_merged_cells :: heap where
  "example_merged_cells =
     [Some (Collection_object AWS_PST_NONE [(21, 22)]),
      Some (String_object ''foo''),
      Some (Profile_object (Some 23) False [(24, 25)]),
      Some (String_object ''foo''),
      Some (String_object ''region''),
      Some (Property_object (Some 27) (Some 31) False [(32, 33)]),
      None,
      Some (String_object ''region''),
      None,
      None,
      None,
      Some (String_object ''eu-west-1''),
      Some (String_object ''k''),
      Some (String_object ''w'')]"

lemmas at_eval = collection_at_def profile_entry_at_def profile_at_def property_entry_at_def
  property_at_def sub_property_at_def load_string_opt_def load_collection_def load_profile_def
  load_property_def load_string_def load_def

theorem merge_leaves_inputs_unchanged_witness:
  "collection_at example_store 0 = Some example_store_config \<and>
   collection_at example_store 10 = Some example_store_credentials \<and>
   aws_profile_collection_new_from_merge_store example_store (Some 0) (Some 10)
   = Some (20, example_store @ example_merged_cells) \<and>
   load example_store 20 = None \<and>
   take 20 (example_store @ example_merged_cells) = example_store \<and>
   collection_at (example_store @ example_merged_cells) 0 = Some example_store_config \<and>
   collection_at (example_store @ example_merged_cells) 10 = Some example_store_credentials \<and>
   collection_at (example_store @ example_merged_cells) 20
   = Some (aws_profile_collection_new_from_merge
             (Some example_store_config) (Some example_store_credentials))"
proof -
  have config: "collection_at example_store 0 = Some example_store_config"
    by (simp add: at_eval example_store_def example_store_config_def)
  have credentials: "collection_at example_store 10 = Some example_store_credentials"
    by (simp add: at_eval example_store_def example_store_credentials_def)
  have len: "length example_store = 20"
    by (simp add: example_store_def)
  have run: "aws_profile_collection_new_from_merge_store example_store (Some 0) (Some 10)
      = Some (20, example_store @ example_merged_cells)"
    by (simp add: store_eval example_store_def example_merged_cells_def nth_append)
  have merged: "collection_at (example_store @ example_merged_cells) 20
      = Some (aws_profile_collection_new_from_merge
                (Some example_store_config) (Some example_store_credentials))"
    by (simp add: at_eval example_store_def example_merged_cells_def
        example_store_config_def example_store_credentials_def
        aws_profile_collection_new_from_merge_def s_profile_collection_merge_def
        s_profile_collection_merge_iter_def s_profile_merge_def s_profile_merge_iter_def
        s_profile_property_merge_def s_profile_property_merge_iter_def
        aws_profile_collection_get_profile_def aws_profile_get_property_def
        aws_profile_new_def aws_profile_property_new_def aws_hash_table_find_def
        aws_hash_table_put_def aws_hash_table_remove_def Let_def)
  from merge_leaves_inputs_unchanged [of "Some 0" "Some 10" example_store]
  show ?thesis
    by (simp add: config credentials len run merged)
qed

end
